theory Spec2Isabelle
  imports Complex_Main "HOL-Library.Word" "HOL-Library.Sublist" "HOL-Library.Multiset"
begin

section \<open>JavaScript strings\<close>

text \<open>
  A JavaScript string is a finite sequence of UTF-16 code units, and \<open>length\<close> counts
  code units. Character constants are written by their code.
\<close>

type_synonym code_unit = "16 word"
type_synonym jsstring = "code_unit list"

definition str :: "string \<Rightarrow> jsstring" where
  "str s = map (\<lambda>c. of_nat (of_char c)) s"

definition SPACE :: code_unit where "SPACE = 0x20"
definition PIPE :: code_unit where "PIPE = 0x7C"
definition SEMI :: code_unit where "SEMI = 0x3B"
definition NL :: code_unit where "NL = 0x0A"

text \<open>
  The code units that \<open>String.prototype.trim\<close> and the regular-expression class
  \<open>\s\<close> remove: the WhiteSpace and LineTerminator productions of ECMA-262.
\<close>

definition isWhiteSpace :: "code_unit \<Rightarrow> bool" where
  "isWhiteSpace c \<longleftrightarrow>
     c = 0x09 \<or> c = 0x0A \<or> c = 0x0B \<or> c = 0x0C \<or> c = 0x0D \<or> c = 0x20 \<or> c = 0xA0 \<or>
     c = 0x1680 \<or> (0x2000 \<le> c \<and> c \<le> 0x200A) \<or> c = 0x2028 \<or> c = 0x2029 \<or>
     c = 0x202F \<or> c = 0x205F \<or> c = 0x3000 \<or> c = 0xFEFF"

definition trimStart :: "jsstring \<Rightarrow> jsstring" where
  "trimStart s = dropWhile isWhiteSpace s"

definition trimEnd :: "jsstring \<Rightarrow> jsstring" where
  "trimEnd s = rev (dropWhile isWhiteSpace (rev s))"

definition trim :: "jsstring \<Rightarrow> jsstring" where
  "trim s = trimEnd (trimStart s)"

text \<open>\<open>s.startsWith(c)\<close> and \<open>s.endsWith(c)\<close> for a one-character argument.\<close>

definition startsWith :: "jsstring \<Rightarrow> code_unit \<Rightarrow> bool" where
  "startsWith s c \<longleftrightarrow> (case s of [] \<Rightarrow> False | x # _ \<Rightarrow> x = c)"

definition endsWith :: "jsstring \<Rightarrow> code_unit \<Rightarrow> bool" where
  "endsWith s c \<longleftrightarrow> (case rev s of [] \<Rightarrow> False | x # _ \<Rightarrow> x = c)"

text \<open>\<open>parts.join(sep)\<close>.\<close>

fun joinWith :: "jsstring \<Rightarrow> jsstring list \<Rightarrow> jsstring" where
  "joinWith sep [] = []"
| "joinWith sep [x] = x"
| "joinWith sep (x # y # ys) = x @ sep @ joinWith sep (y # ys)"

text \<open>\<open>s.split('\n')\<close>; \<open>cur\<close> is the line read so far.\<close>

fun lines_from :: "jsstring \<Rightarrow> jsstring \<Rightarrow> jsstring list" where
  "lines_from cur [] = [cur]"
| "lines_from cur (c # cs) =
     (if c = NL then cur # lines_from [] cs else lines_from (cur @ [c]) cs)"

definition split_nl :: "jsstring \<Rightarrow> jsstring list" where
  "split_nl s = lines_from [] s"

text \<open>
  A value that the external service hands back where a string is expected: a string, or
  anything else, of which only its truthiness matters to the code.
\<close>

datatype jsvalue = JString jsstring | JOther bool

text \<open>
  What a rejected call throws: an \<open>Error\<close> object with its message, or any other value.
  A result of type \<open>thrown + 'a\<close> is \<open>Inl\<close> for a call that throws.
\<close>

datatype thrown = ErrorObject jsstring | OtherValue

section \<open>Caption line splitter (\<open>handleCopyToClipboard\<close> in \<open>src/app/page.tsx\<close>)\<close>

text \<open>The delimiter \<open>' | '\<close>.\<close>

definition SEP :: jsstring where
  "SEP = [SPACE, PIPE, SPACE]"

text \<open>
  \<open>generatedStory.split(' | ')\<close>: the input is cut at every occurrence of the delimiter,
  scanning from the left; \<open>cur\<close> is the part read since the last cut. The empty string
  gives the one-element list holding the empty string.
\<close>

fun split_from :: "jsstring \<Rightarrow> jsstring \<Rightarrow> jsstring list" where
  "split_from cur (a # b # c # rest) =
     (if a = SPACE \<and> b = PIPE \<and> c = SPACE then cur # split_from [] rest
      else split_from (cur @ [a]) (b # c # rest))"
| "split_from cur rest = [cur @ rest]"

definition split_delim :: "jsstring \<Rightarrow> jsstring list" where
  "split_delim s = split_from [] s"

text \<open>
  The body of the loop over \<open>parts\<close>: the part joins the first line when the first line,
  the part and one delimiter together have at most 47 code units, and the second line
  otherwise. A line that is still empty takes the part without a delimiter.
\<close>

fun place :: "jsstring \<times> jsstring \<Rightarrow> jsstring \<Rightarrow> jsstring \<times> jsstring" where
  "place (firstLine, secondLine) part =
     (if length (firstLine @ part @ SEP) \<le> 47
      then (firstLine @ (if firstLine \<noteq> [] then SEP else []) @ part, secondLine)
      else (firstLine, secondLine @ (if secondLine \<noteq> [] then SEP else []) @ part))"

definition packLines :: "jsstring list \<Rightarrow> jsstring \<times> jsstring" where
  "packLines parts = foldl place ([], []) parts"

text \<open>
  After the loop both lines are trimmed, and a first line that ends with a pipe loses
  that one pipe and is trimmed again. The second line is only trimmed.
\<close>

definition splitLines :: "jsstring list \<Rightarrow> jsstring \<times> jsstring" where
  "splitLines parts =
     (let (firstLine, secondLine) = packLines parts;
          firstLine = trim firstLine;
          secondLine = trim secondLine;
          firstLine = (if endsWith firstLine PIPE then trim (butlast firstLine) else firstLine)
      in (firstLine, secondLine))"

definition textToCopy :: "jsstring \<Rightarrow> jsstring" where
  "textToCopy generatedStory =
     (let (firstLine, secondLine) = splitLines (split_delim generatedStory)
      in if secondLine \<noteq> [] then firstLine @ [NL] @ secondLine else firstLine)"

text \<open>
  The handler returns without touching the clipboard when there is no story; otherwise
  the text above is what it writes to the clipboard.
\<close>

definition handleCopyToClipboard :: "jsstring \<Rightarrow> jsstring option" where
  "handleCopyToClipboard generatedStory =
     (if generatedStory = [] then None else Some (textToCopy generatedStory))"

section \<open>Feature formatting flow (\<open>src/ai/flows/format-property-features.ts\<close>)\<close>

text \<open>The message of the error the flow throws.\<close>

definition invalidFeaturesMessage :: jsstring where
  "invalidFeaturesMessage =
     str ''A IA n'' @ [0xE3] @ str ''o retornou uma formata'' @ [0xE7, 0xE3] @ str ''o v'' @ [0xE1] @
     str ''lida para as caracter'' @ [0xED] @
     str ''sticas. O resultado pode estar vazio ou malformado.''"

text \<open>
  The repair step of the flow: a non-empty text that does not end with a semicolon gets
  one appended.
\<close>

definition ensureSemicolon :: "jsstring \<Rightarrow> jsstring" where
  "ensureSemicolon formattedFeatures =
     (if formattedFeatures \<noteq> [] \<and> \<not> endsWith formattedFeatures SEMI
      then formattedFeatures @ [SEMI] else formattedFeatures)"

text \<open>
  The flow on what the awaited prompt gives: \<open>Inl e\<close> when the prompt call itself
  throws, \<open>Inr None\<close> for a missing output, \<open>Inr (Some v)\<close> for an output whose field
  \<open>formattedFeatures\<close> is \<open>v\<close>.
\<close>

definition formatPropertyFeaturesFlow :: "thrown + jsvalue option \<Rightarrow> thrown + jsstring" where
  "formatPropertyFeaturesFlow output =
     (case output of
        Inl e \<Rightarrow> Inl e
      | Inr None \<Rightarrow> Inl (ErrorObject invalidFeaturesMessage)
      | Inr (Some (JOther _)) \<Rightarrow> Inl (ErrorObject invalidFeaturesMessage)
      | Inr (Some (JString formattedFeatures)) \<Rightarrow> Inr (ensureSemicolon formattedFeatures))"

text \<open>
  The revision of the same flow kept in \<open>src/unnamed/part_000\<close> repairs the last line of
  the trimmed text and returns the result trimmed.
\<close>

definition ensureSemicolonLastLine :: "jsstring \<Rightarrow> jsstring" where
  "ensureSemicolonLastLine formattedFeatures =
     trim
       (if formattedFeatures \<noteq> [] \<and> \<not> endsWith (trim formattedFeatures) SEMI
        then (let lines = split_nl (trim formattedFeatures);
                  lastLine = last lines
              in if lastLine \<noteq> []
                 then joinWith [NL]
                        (butlast lines @
                         [if endsWith lastLine SEMI then lastLine else lastLine @ [SEMI]])
                 else formattedFeatures)
        else formattedFeatures)"

section \<open>Story text flow (\<open>generateStoryTextFlow\<close>)\<close>

definition storyFailedMessage :: jsstring where
  "storyFailedMessage =
     str ''AI flow failed to generate story text. The output may be empty or malformed.''"

text \<open>
  The final check of the flow: trim, drop one leading pipe and trim, drop one trailing
  pipe and trim.
\<close>

definition stripPipes :: "jsstring \<Rightarrow> jsstring" where
  "stripPipes raw =
     (let storyText = trim raw;
          storyText = (if startsWith storyText PIPE then trim (tl storyText) else storyText);
          storyText = (if endsWith storyText PIPE then trim (butlast storyText) else storyText)
      in storyText)"

section \<open>Numbers and the functions of the platform\<close>

text \<open>
  A Number is modelled by the value it rounds: \<open>Finite q\<close> stands for the double nearest
  to \<open>q\<close> (so two values that round to the same double stand for one Number, and a
  negative \<open>q\<close> too small for a double stands for the negative zero), \<open>Infinity neg\<close> for
  the infinity that is negative when \<open>neg\<close> holds, and \<open>NegZero\<close> for the negative zero
  that a literal of value zero with a minus sign denotes.
\<close>

datatype number = NaN | Infinity bool | NegZero | Finite rat

text \<open>
  From this magnitude on, halfway between the largest double and \<open>2 ^ 1024\<close>, a decimal
  literal rounds to an infinity.
\<close>

definition doubleOverflow :: rat where
  "doubleOverflow = 2 ^ 1024 - 2 ^ 970"

text \<open>The Number that a literal of sign \<open>neg\<close> and magnitude \<open>q\<close> denotes.\<close>

definition literalValue :: "bool \<Rightarrow> rat \<Rightarrow> number" where
  "literalValue neg q =
     (if doubleOverflow \<le> q then Infinity neg
      else if q = 0 \<and> neg then NegZero
      else Finite (if neg then - q else q))"

text \<open>
  What the code takes from the JavaScript platform and its locale data:
  \<open>String.prototype.toUpperCase\<close>, \<open>new Intl.NumberFormat('pt-BR').format\<close>,
  \<open>new Intl.NumberFormat("pt-BR", {style: "currency", currency: "BRL"}).format\<close>, and
  the message of the TypeError raised when a string method is called on a value that
  has none.
\<close>

record platform =
  toUpperCase :: "jsstring \<Rightarrow> jsstring"
  numberFormat :: "number \<Rightarrow> jsstring"
  currencyFormat :: "number \<Rightarrow> jsstring"
  notAFunctionMessage :: jsstring

text \<open>
  The story flow on what the awaited prompt gives. A truthy value that is not a string
  passes the check and fails at \<open>trim\<close> with a TypeError.
\<close>

definition generateStoryTextFlow :: "platform \<Rightarrow> thrown + jsvalue option \<Rightarrow> thrown + jsstring" where
  "generateStoryTextFlow P output =
     (case output of
        Inl e \<Rightarrow> Inl e
      | Inr None \<Rightarrow> Inl (ErrorObject storyFailedMessage)
      | Inr (Some (JOther truthy)) \<Rightarrow>
          if truthy then Inl (ErrorObject (notAFunctionMessage P))
          else Inl (ErrorObject storyFailedMessage)
      | Inr (Some (JString storyText)) \<Rightarrow>
          if storyText = [] then Inl (ErrorObject storyFailedMessage)
          else Inr (stripPipes storyText))"

subsection \<open>\<open>parseFloat\<close>\<close>

definition isDigit :: "code_unit \<Rightarrow> bool" where
  "isDigit c \<longleftrightarrow> 0x30 \<le> c \<and> c \<le> 0x39"

definition digitsValue :: "jsstring \<Rightarrow> nat" where
  "digitsValue ds = foldl (\<lambda>n d. 10 * n + (unat d - 48)) 0 ds"

definition scale10 :: "rat \<Rightarrow> int \<Rightarrow> rat" where
  "scale10 m e = (if 0 \<le> e then m * 10 ^ nat e else m / 10 ^ nat (- e))"

text \<open>An optional sign followed by at least one digit.\<close>

definition signedInteger :: "jsstring \<Rightarrow> int option" where
  "signedInteger s =
     (let (neg, r) = (case s of
                        [] \<Rightarrow> (False, s)
                      | c # r \<Rightarrow> if c = 0x2D then (True, r)
                                 else if c = 0x2B then (False, r) else (False, s));
          ds = takeWhile isDigit r
      in if ds = [] then None
         else Some ((if neg then - 1 else 1) * int (digitsValue ds)))"

text \<open>The value of an exponent part at the head of \<open>s\<close>, 0 when there is none.\<close>

definition exponentPart :: "jsstring \<Rightarrow> int" where
  "exponentPart s =
     (case s of
        [] \<Rightarrow> 0
      | e # r \<Rightarrow> if e = 0x65 \<or> e = 0x45
                 then (case signedInteger r of None \<Rightarrow> 0 | Some n \<Rightarrow> n) else 0)"

text \<open>
  The longest prefix that is an unsigned decimal literal (digits, an optional fraction,
  an optional exponent), as its exact value; \<open>None\<close> when no prefix is one.
\<close>

definition unsignedDecimal :: "jsstring \<Rightarrow> rat option" where
  "unsignedDecimal s =
     (let intDigits = takeWhile isDigit s; r1 = dropWhile isDigit s
      in case r1 of
           [] \<Rightarrow> if intDigits = [] then None else Some (of_nat (digitsValue intDigits))
         | c # r2 \<Rightarrow>
             if c = 0x2E
             then (let fracDigits = takeWhile isDigit r2; r3 = dropWhile isDigit r2
                   in if intDigits = [] \<and> fracDigits = [] then None
                      else Some (scale10 (of_nat (digitsValue (intDigits @ fracDigits)))
                                   (exponentPart r3 - int (length fracDigits))))
             else if intDigits = [] then None
             else Some (scale10 (of_nat (digitsValue intDigits)) (exponentPart r1)))"

definition parseFloat :: "jsstring \<Rightarrow> number" where
  "parseFloat string =
     (let trimmed = trimStart string;
          (neg, r) = (case trimmed of
                        [] \<Rightarrow> (False, trimmed)
                      | c # r \<Rightarrow> if c = 0x2D then (True, r)
                                 else if c = 0x2B then (False, r) else (False, trimmed))
      in if prefix (str ''Infinity'') r then Infinity neg
         else (case unsignedDecimal r of
                 None \<Rightarrow> NaN
               | Some q \<Rightarrow> literalValue neg q))"

section \<open>Description form (\<open>PropertyDescriptionForm\<close> in \<open>src/app/page.tsx\<close>)\<close>

subsection \<open>\<open>formatCurrency\<close>\<close>

text \<open>
  \<open>replace(/R\$\s*/g, "")\<close>: every occurrence of \<open>R$\<close> is removed together with the
  white space that follows it.
\<close>

function removeCurrencyMarker :: "jsstring \<Rightarrow> jsstring" where
  "removeCurrencyMarker (a # b # rest) =
     (if a = 0x52 \<and> b = 0x24 then removeCurrencyMarker (dropWhile isWhiteSpace rest)
      else a # removeCurrencyMarker (b # rest))"
| "removeCurrencyMarker [a] = [a]"
| "removeCurrencyMarker [] = []"
  by pat_completeness auto
termination
  by (relation "measure length") (auto simp: less_Suc_eq_le intro: le_SucI length_dropWhile_le)

text \<open>\<open>replace(/\./g, '')\<close> and \<open>replace(',', '.')\<close>; the second changes the first comma only.\<close>

definition removeDots :: "jsstring \<Rightarrow> jsstring" where
  "removeDots s = filter (\<lambda>c. c \<noteq> 0x2E) s"

fun replaceFirstComma :: "jsstring \<Rightarrow> jsstring" where
  "replaceFirstComma [] = []"
| "replaceFirstComma (c # cs) = (if c = 0x2C then 0x2E # cs else c # replaceFirstComma cs)"

definition normalizePrice :: "jsstring \<Rightarrow> jsstring" where
  "normalizePrice valueStr =
     (let s = trim (removeCurrencyMarker valueStr);
          s = removeDots s;
          s = replaceFirstComma s
      in s)"

definition formatCurrency :: "platform \<Rightarrow> jsstring \<Rightarrow> jsstring" where
  "formatCurrency P valueStr =
     (let numberValue = parseFloat (normalizePrice valueStr)
      in if numberValue = NaN then valueStr else currencyFormat P numberValue)"

subsection \<open>\<open>onSubmit\<close>\<close>

text \<open>
  The validated form data. The two areas are held as the Numbers that
  \<open>Intl.NumberFormat.format\<close> converts them to: a number as it is, and the empty string,
  which the schema also admits, as 0.
\<close>

record PropertyFormData =
  codigo :: jsstring
  valor :: jsstring
  bairro :: jsstring
  cidade :: jsstring
  areaTotal :: number
  areaPrivada :: number
  descricaoAdicional :: "jsstring option"
  caracteristicasPrincipais :: jsstring

definition featuresFailedMessage :: jsstring where
  "featuresFailedMessage =
     str ''A IA n'' @ [0xE3] @ str ''o conseguiu formatar as caracter'' @ [0xED] @ str ''sticas.''"

definition codigoLabel :: jsstring where
  "codigoLabel = str ''C'' @ [0xF3] @ str ''digo do im'' @ [0xF3] @ str ''vel: ''"

definition featuresHeader :: jsstring where
  "featuresHeader = str ''CARACTER'' @ [0xCD] @ str ''STICAS PRINCIPAIS:''"

definition areaTotalLabel :: jsstring where
  "areaTotalLabel = [0xC1] @ str ''rea Total: ''"

definition areaPrivadaLabel :: jsstring where
  "areaPrivadaLabel = [0xC1] @ str ''rea Privada: ''"

definition squareMetres :: jsstring where
  "squareMetres = str '' m'' @ [0xB2]"

definition valorLabel :: jsstring where
  "valorLabel = [0xD83D, 0xDCB0] @ str ''VALOR: ''"

definition contactLines :: "jsstring list" where
  "contactLines =
     [str ''Agende uma visita hoje mesmo com nossa equipe:'',
      [0xD83D, 0xDCF2] @ str ''(31) 9 9859 0590 / 3058-1600'',
      str ''Avenida Acad'' @ [0xEA] @
      str ''mico Nilo Figueiredo, 3273, Santos Dumont II, Lagoa Santa/MG'']"

text \<open>
  The lines of the description, in the order in which the code pushes them, for a
  feature text that is a string.
\<close>

definition descriptionParts :: "platform \<Rightarrow> PropertyFormData \<Rightarrow> jsstring \<Rightarrow> jsstring list" where
  "descriptionParts P data formattedFeatures =
     (let formattedValor = formatCurrency P (valor data);
          location = toUpperCase P (bairro data) @ str '' - '' @ toUpperCase P (cidade data) @
                     str ''/MG'';
          formattedAreaTotal = numberFormat P (areaTotal data);
          formattedAreaPrivada = numberFormat P (areaPrivada data)
      in [location, [], codigoLabel @ codigo data] @
         (case descricaoAdicional data of
            None \<Rightarrow> []
          | Some extra \<Rightarrow> if trim extra \<noteq> [] then [[], trim extra] else []) @
         [[], featuresHeader, trimStart formattedFeatures, []] @
         [areaTotalLabel @ formattedAreaTotal @ squareMetres] @
         [areaPrivadaLabel @ formattedAreaPrivada @ squareMetres] @
         [valorLabel @ formattedValor, []] @
         contactLines)"

text \<open>
  What the awaited call of the adapter gives to \<open>onSubmit\<close>: \<open>Inl e\<close> is a rejection
  that throws \<open>e\<close>, \<open>Inr None\<close> no result object, \<open>Inr (Some v)\<close> a result whose field
  \<open>formattedFeatures\<close> is \<open>v\<close>.
\<close>

type_synonym ai_result = "thrown + jsvalue option"

text \<open>
  The body of the \<open>try\<close> block up to the joined description; \<open>Inl\<close> carries what
  reaches the \<open>catch\<close> block. A truthy value that is not a string passes the check and
  fails at \<open>trimStart\<close> with a TypeError.
\<close>

definition tryDescription :: "platform \<Rightarrow> PropertyFormData \<Rightarrow> ai_result \<Rightarrow> thrown + jsstring" where
  "tryDescription P data aiResult =
     (case aiResult of
        Inl e \<Rightarrow> Inl e
      | Inr None \<Rightarrow> Inl (ErrorObject featuresFailedMessage)
      | Inr (Some (JOther truthy)) \<Rightarrow>
          if truthy then Inl (ErrorObject (notAFunctionMessage P))
          else Inl (ErrorObject featuresFailedMessage)
      | Inr (Some (JString formattedFeatures)) \<Rightarrow>
          if formattedFeatures = [] then Inl (ErrorObject featuresFailedMessage)
          else Inr (joinWith [NL] (descriptionParts P data formattedFeatures)))"

text \<open>The effects of \<open>onSubmit\<close> on the page, in the order in which they happen.\<close>

datatype toast_variant = Default | Destructive

datatype ui_event =
    SetIsLoading bool
  | SetGeneratedDescription jsstring
  | Toast toast_variant jsstring jsstring
  | ConsoleError

definition successTitle :: jsstring where
  "successTitle = str ''Sucesso!''"

definition successMessage :: jsstring where
  "successMessage = str ''Descri'' @ [0xE7, 0xE3] @ str ''o gerada.''"

definition errorTitle :: jsstring where
  "errorTitle = str ''Erro ao gerar descri'' @ [0xE7, 0xE3] @ str ''o''"

text \<open>The text of the error toast: the message of an \<open>Error\<close>, a fixed text otherwise.\<close>

definition errorDescription :: "thrown \<Rightarrow> jsstring" where
  "errorDescription e =
     (case e of ErrorObject message \<Rightarrow> message | OtherValue \<Rightarrow> str ''Ocorreu um erro inesperado.'')"

definition onSubmit :: "platform \<Rightarrow> PropertyFormData \<Rightarrow> ai_result \<Rightarrow> ui_event list" where
  "onSubmit P data aiResult =
     [SetIsLoading True, SetGeneratedDescription []] @
     (case tryDescription P data aiResult of
        Inr description \<Rightarrow>
          [SetGeneratedDescription description, Toast Default successTitle successMessage]
      | Inl e \<Rightarrow> [ConsoleError, Toast Destructive errorTitle (errorDescription e)]) @
     [SetIsLoading False]"

text \<open>
  \<open>formatPropertyFeatures\<close> hands the result of the flow to the page, and the page runs
  \<open>onSubmit\<close> on it.
\<close>

definition formatPropertyFeatures :: "thrown + jsvalue option \<Rightarrow> ai_result" where
  "formatPropertyFeatures output =
     (case formatPropertyFeaturesFlow output of
        Inl e \<Rightarrow> Inl e
      | Inr formattedFeatures \<Rightarrow> Inr (Some (JString formattedFeatures)))"

definition submit ::
  "platform \<Rightarrow> PropertyFormData \<Rightarrow> thrown + jsvalue option \<Rightarrow> ui_event list" where
  "submit P data output = onSubmit P data (formatPropertyFeatures output)"

text \<open>The descriptions that a run of events puts on the page, in order.\<close>

definition shownDescriptions :: "ui_event list \<Rightarrow> jsstring list" where
  "shownDescriptions events =
     concat (map (\<lambda>e. case e of SetGeneratedDescription d \<Rightarrow> [d] | _ \<Rightarrow> []) events)"

section \<open>Notions used in the statements\<close>

text \<open>
  A result of the adapter that is no usable text: a rejection, no result object, a field
  that is not a string, or the empty string.
\<close>

definition unusable :: "ai_result \<Rightarrow> bool" where
  "unusable aiResult \<longleftrightarrow>
     (case aiResult of
        Inl _ \<Rightarrow> True
      | Inr None \<Rightarrow> True
      | Inr (Some (JOther _)) \<Rightarrow> True
      | Inr (Some (JString formattedFeatures)) \<Rightarrow> formattedFeatures = [])"

text \<open>
  A platform defined on the values of the worked examples only: upper case for the ASCII
  letters, the pt-BR renderings of 120 and 90, and of 350000 and -7 as amounts in BRL
  (with the no-break space that the locale data puts after the currency sign).
\<close>

definition samplePlatform :: platform where
  "samplePlatform =
     \<lparr>toUpperCase = map (\<lambda>c. if 0x61 \<le> c \<and> c \<le> 0x7A then c - 0x20 else c),
      numberFormat = (\<lambda>n. if n = Finite 120 then str ''120''
                           else if n = Finite 90 then str ''90'' else []),
      currencyFormat = (\<lambda>n. if n = Finite 350000 then str ''R$'' @ [0xA0] @ str ''350.000,00''
                             else if n = Finite (- 7) then str ''-R$'' @ [0xA0] @ str ''7,00''
                             else []),
      notAFunctionMessage = str ''aiResult.formattedFeatures.trimStart is not a function''\<rparr>"

text \<open>
  The normal form of a price in the words of the specification: the text trimmed, a
  leading currency marker \<open>R$\<close> and the white space around it stripped, all dots
  removed, the decimal comma turned into a dot.
\<close>

definition currencyMarker :: jsstring where
  "currencyMarker = [0x52, 0x24]"

definition stripLeadingMarker :: "jsstring \<Rightarrow> jsstring" where
  "stripLeadingMarker valueStr =
     (let s = trim valueStr in if prefix currencyMarker s then trim (drop 2 s) else s)"

definition leadingMarkerForm :: "jsstring \<Rightarrow> jsstring" where
  "leadingMarkerForm valueStr = replaceFirstComma (removeDots (stripLeadingMarker valueStr))"

text \<open>
  The parts that the loop sends to the first and to the second line, in the order in
  which it sends them: the test is the one of \<open>place\<close>, and \<open>firstLine\<close> is the first
  line built so far.
\<close>

definition appendPart :: "jsstring \<Rightarrow> jsstring \<Rightarrow> jsstring" where
  "appendPart line part = line @ (if line \<noteq> [] then SEP else []) @ part"

fun assign :: "jsstring \<Rightarrow> jsstring list \<Rightarrow> jsstring list \<times> jsstring list" where
  "assign firstLine [] = ([], [])"
| "assign firstLine (part # parts) =
     (if length (firstLine @ part @ SEP) \<le> 47
      then (let (a, b) = assign (appendPart firstLine part) parts in (part # a, b))
      else (let (a, b) = assign firstLine parts in (a, part # b)))"

definition firstLineParts :: "jsstring list \<Rightarrow> jsstring list" where
  "firstLineParts parts = fst (assign [] parts)"

definition secondLineParts :: "jsstring list \<Rightarrow> jsstring list" where
  "secondLineParts parts = snd (assign [] parts)"

text \<open>
  A token that trimming and the removal of a trailing pipe leave alone: not empty, no
  white space at either end, no pipe at the end.
\<close>

definition cleanToken :: "jsstring \<Rightarrow> bool" where
  "cleanToken t \<longleftrightarrow> t \<noteq> [] \<and> trim t = t \<and> \<not> endsWith t PIPE"

text \<open>The tokens that a line holds: the line cut at the delimiter, none for an empty line.\<close>

definition lineTokens :: "jsstring \<Rightarrow> jsstring list" where
  "lineTokens line = (if line = [] then [] else split_delim line)"

text \<open>The last line of a text that is not empty, if there is one.\<close>

definition lastNonEmptyLine :: "jsstring \<Rightarrow> jsstring option" where
  "lastNonEmptyLine s =
     (case filter (\<lambda>l. l \<noteq> []) (rev (split_nl s)) of [] \<Rightarrow> None | l # _ \<Rightarrow> Some l)"

definition endsWithOne :: "jsstring \<Rightarrow> code_unit \<Rightarrow> bool" where
  "endsWithOne s c \<longleftrightarrow> endsWith s c \<and> \<not> endsWith (butlast s) c"

section \<open>Basic facts about trimming\<close>

lemmas string_consts = str_def SPACE_def PIPE_def SEMI_def NL_def SEP_def

lemmas string_ops = trim_def trimStart_def trimEnd_def isWhiteSpace_def endsWith_def
  startsWith_def

lemmas splitter_defs = split_delim_def textToCopy_def splitLines_def packLines_def
  handleCopyToClipboard_def lineTokens_def Let_def

lemma length_trimStart: "length (trimStart s) \<le> length s"
  unfolding trimStart_def by (rule length_dropWhile_le)

lemma length_trimEnd: "length (trimEnd s) \<le> length s"
proof -
  have "length (dropWhile isWhiteSpace (rev s)) \<le> length (rev s)"
    by (rule length_dropWhile_le)
  then show ?thesis by (simp add: trimEnd_def)
qed

lemma length_trim: "length (trim s) \<le> length s"
  unfolding trim_def using length_trimEnd [of "trimStart s"] length_trimStart [of s]
  by linarith

section \<open>The first line never exceeds the budget\<close>

lemma place_first_bound:
  "length (fst st) \<le> 47 \<Longrightarrow> length (fst (place st part)) \<le> 47"
  by (cases st) (simp add: SEP_def)

lemma foldl_place_first_bound:
  "length (fst st) \<le> 47 \<Longrightarrow> length (fst (foldl place st parts)) \<le> 47"
  by (induction parts arbitrary: st) (simp_all add: place_first_bound del: place.simps)

lemma packLines_first_bound: "length (fst (packLines parts)) \<le> 47"
  unfolding packLines_def by (rule foldl_place_first_bound) simp

lemma splitLines_first_bound: "length (fst (splitLines parts)) \<le> 47"
proof -
  obtain f s where fs: "packLines parts = (f, s)" by (cases "packLines parts")
  have f: "length f \<le> 47" using packLines_first_bound [of parts] fs by simp
  have t: "length (trim f) \<le> 47" using length_trim [of f] f by linarith
  have "length (trim (butlast (trim f))) \<le> length (butlast (trim f))" by (rule length_trim)
  then have b: "length (trim (butlast (trim f))) \<le> 47" using t by simp
  show ?thesis using fs t b by (simp add: splitLines_def Let_def)
qed

lemma place_oversized:
  "44 < length part \<Longrightarrow>
   place (f, s) part = (f, s @ (if s \<noteq> [] then SEP else []) @ part)"
  by (simp add: SEP_def)

lemma place_fst_indep: "fst (place (f, s) part) = fst (place (f, s') part)"
  by simp

lemma foldl_place_fst_indep:
  "fst (foldl place (f, s) parts) = fst (foldl place (f, s') parts)"
proof (induction parts arbitrary: f s s')
  case Nil
  show ?case by simp
next
  case (Cons p ps)
  show ?case
  proof (cases "length (f @ p @ SEP) \<le> 47")
    case True
    then show ?thesis using Cons.IH by simp
  next
    case False
    then show ?thesis using Cons.IH by simp
  qed
qed

lemma foldl_place_filter:
  "fst (foldl place (f, s) parts) =
   fst (foldl place (f, s) (filter (\<lambda>p. length p \<le> 44) parts))"
proof (induction parts arbitrary: f s)
  case Nil
  show ?case by simp
next
  case (Cons p ps)
  show ?case
  proof (cases "length p \<le> 44")
    case True
    obtain f' s' where st: "place (f, s) p = (f', s')" by (cases "place (f, s) p")
    show ?thesis using True st Cons.IH [of f' s'] by (simp del: place.simps)
  next
    case False
    then have big: "44 < length p" by simp
    have "fst (foldl place (f, s @ (if s \<noteq> [] then SEP else []) @ p) ps)
        = fst (foldl place (f, s) ps)"
      by (rule foldl_place_fst_indep)
    then show ?thesis using False place_oversized [OF big, of f s] Cons.IH [of f s]
      by (simp del: place.simps)
  qed
qed

lemma place_snd_grows: "prefix (snd st) (snd (place st part))"
  by (cases st) simp

lemma foldl_place_snd_grows: "prefix (snd st) (snd (foldl place st parts))"
proof (induction parts arbitrary: st)
  case Nil
  show ?case by simp
next
  case (Cons p ps)
  have "prefix (snd st) (snd (place st p))" by (rule place_snd_grows)
  moreover have "prefix (snd (place st p)) (snd (foldl place (place st p) ps))"
    by (rule Cons.IH)
  ultimately have "prefix (snd st) (snd (foldl place (place st p) ps))"
    by (rule prefix_order.trans)
  then show ?case by (simp del: place.simps)
qed

lemma sublist_prefix_trans: "sublist p xs \<Longrightarrow> prefix xs ys \<Longrightarrow> sublist p ys"
  by (meson prefix_imp_sublist sublist_order.order_trans)

lemma foldl_place_oversized_second:
  "p \<in> set parts \<Longrightarrow> 44 < length p \<Longrightarrow> sublist p (snd (foldl place st parts))"
proof (induction parts arbitrary: st)
  case Nil
  then show ?case by simp
next
  case (Cons q qs)
  show ?case
  proof (cases "p = q")
    case True
    obtain f s where st: "st = (f, s)" by (cases st)
    have "snd (place st q) = s @ (if s \<noteq> [] then SEP else []) @ p"
      using place_oversized [of p f s] Cons.prems(2) True st by simp
    moreover have "sublist p ((s @ (if s \<noteq> [] then SEP else [])) @ p @ [])"
      by (rule sublist_appendI)
    ultimately have "sublist p (snd (place st q))"
      by simp
    then have "sublist p (snd (foldl place (place st q) qs))"
      using foldl_place_snd_grows [of "place st q" qs] by (rule sublist_prefix_trans)
    then show ?thesis by (simp del: place.simps)
  next
    case False
    then have "p \<in> set qs" using Cons.prems(1) by simp
    then show ?thesis using Cons.IH Cons.prems(2) by (simp del: place.simps)
  qed
qed

lemma splitLines_fst_cong:
  "fst (packLines parts) = fst (packLines parts') \<Longrightarrow>
   fst (splitLines parts) = fst (splitLines parts')"
  by (simp add: splitLines_def Let_def split_beta)

text \<open>
  Claim C1, as the code has it. For every list of tokens the first output line has at
  most 47 code units after trimming, without exception. A token of more than 44 code
  units (so also one of more than 47) never reaches the first line: the first line is
  what it would be without such tokens, and each of them is appended whole to the second
  line that the loop builds.
\<close>

theorem first_line_budget:
  "length (fst (splitLines parts)) \<le> 47 \<and>
   fst (splitLines parts) = fst (splitLines (filter (\<lambda>p. length p \<le> 44) parts)) \<and>
   (\<forall>p \<in> set parts. 44 < length p \<longrightarrow> sublist p (snd (packLines parts)))"
proof (intro conjI ballI impI)
  show "length (fst (splitLines parts)) \<le> 47" by (rule splitLines_first_bound)
next
  have "fst (packLines parts) = fst (packLines (filter (\<lambda>p. length p \<le> 44) parts))"
    unfolding packLines_def by (rule foldl_place_filter)
  then show "fst (splitLines parts) = fst (splitLines (filter (\<lambda>p. length p \<le> 44) parts))"
    by (rule splitLines_fst_cong)
next
  fix p assume "p \<in> set parts" "44 < length p"
  then show "sublist p (snd (packLines parts))"
    unfolding packLines_def by (rule foldl_place_oversized_second)
qed

theorem first_line_budget_witness:
  "44 < length (str ''AAAAAAAAAAAAAAAAAAAAAAAAAAAAAAAAAAAAAAAAAAAAAAAA'') \<and>
   length (fst (splitLines [str ''AAAAAAAAAAAAAAAAAAAAAAAAAAAAAAAAAAAAAAAAAAAAAAAA'', str ''B''])) \<le> 47 \<and>
   fst (splitLines [str ''AAAAAAAAAAAAAAAAAAAAAAAAAAAAAAAAAAAAAAAAAAAAAAAA'', str ''B'']) = str ''B'' \<and>
   sublist (str ''AAAAAAAAAAAAAAAAAAAAAAAAAAAAAAAAAAAAAAAAAAAAAAAA'')
     (snd (packLines [str ''AAAAAAAAAAAAAAAAAAAAAAAAAAAAAAAAAAAAAAAAAAAAAAAA'', str ''B'']))"
  using first_line_budget [of "[str ''AAAAAAAAAAAAAAAAAAAAAAAAAAAAAAAAAAAAAAAAAAAAAAAA'', str ''B'']"]
  by (simp add: string_consts string_ops splitter_defs)

text \<open>
  Claim C1 as stated fails for a single token of 48 code units: the first line is empty,
  the token is the second line, and the copied text starts with the line break.
\<close>

theorem oversized_token_counterexample:
  "47 < length (str ''AAAAAAAAAAAAAAAAAAAAAAAAAAAAAAAAAAAAAAAAAAAAAAAA'') \<and>
   split_delim (str ''AAAAAAAAAAAAAAAAAAAAAAAAAAAAAAAAAAAAAAAAAAAAAAAA'')
     = [str ''AAAAAAAAAAAAAAAAAAAAAAAAAAAAAAAAAAAAAAAAAAAAAAAA''] \<and>
   splitLines [str ''AAAAAAAAAAAAAAAAAAAAAAAAAAAAAAAAAAAAAAAAAAAAAAAA'']
     = ([], str ''AAAAAAAAAAAAAAAAAAAAAAAAAAAAAAAAAAAAAAAAAAAAAAAA'') \<and>
   handleCopyToClipboard (str ''AAAAAAAAAAAAAAAAAAAAAAAAAAAAAAAAAAAAAAAAAAAAAAAA'')
     = Some (NL # str ''AAAAAAAAAAAAAAAAAAAAAAAAAAAAAAAAAAAAAAAAAAAAAAAA'')"
  by (simp add: string_consts string_ops splitter_defs)


section \<open>The semicolon repair of the feature flow\<close>

lemma endsWith_snoc [simp]: "endsWith (s @ [c]) d \<longleftrightarrow> c = d"
  by (simp add: endsWith_def)

lemma endsWith_Nil [simp]: "\<not> endsWith [] d"
  by (simp add: endsWith_def)

lemma endsWith_iff: "endsWith s c \<longleftrightarrow> s \<noteq> [] \<and> last s = c"
  by (cases s rule: rev_cases) simp_all

lemma ensureSemicolon_cases:
  "ensureSemicolon s = (if s = [] \<or> endsWith s SEMI then s else s @ [SEMI])"
  by (simp add: ensureSemicolon_def)

lemma ensureSemicolon_idem: "ensureSemicolon (ensureSemicolon s) = ensureSemicolon s"
  by (simp add: ensureSemicolon_def)

text \<open>
  Claim C9. For a non-empty text the flow returns the repaired text, which is the input
  itself (exactly when the input ends with a semicolon) or the input with one semicolon
  appended; either way the input is a prefix of the result.
\<close>

theorem repair_append_only:
  "s \<noteq> [] \<Longrightarrow>
   formatPropertyFeaturesFlow (Inr (Some (JString s))) = Inr (ensureSemicolon s) \<and>
   (ensureSemicolon s = s \<or> ensureSemicolon s = s @ [SEMI]) \<and>
   (ensureSemicolon s = s \<longleftrightarrow> endsWith s SEMI) \<and>
   prefix s (ensureSemicolon s)"
  by (simp add: formatPropertyFeaturesFlow_def ensureSemicolon_def)

theorem repair_append_only_witness:
  "str ''3 quartos'' \<noteq> [] \<and>
   formatPropertyFeaturesFlow (Inr (Some (JString (str ''3 quartos'')))) = Inr (str ''3 quartos;'') \<and>
   prefix (str ''3 quartos'') (str ''3 quartos;'')"
  using repair_append_only [of "str ''3 quartos''"]
  by (simp add: string_consts ensureSemicolon_def endsWith_def)

lemma lines_from_not_Nil [simp]: "lines_from cur s \<noteq> []"
  by (induction s arbitrary: cur) simp_all

lemma lines_from_snoc:
  "c \<noteq> NL \<Longrightarrow>
   lines_from cur (s @ [c]) = butlast (lines_from cur s) @ [last (lines_from cur s) @ [c]]"
  by (induction s arbitrary: cur) simp_all

lemma lastNonEmptyLine_snoc:
  "c \<noteq> NL \<Longrightarrow> lastNonEmptyLine (s @ [c]) = Some (last (split_nl s) @ [c])"
  by (simp add: lastNonEmptyLine_def split_nl_def lines_from_snoc)

lemma rev_last_butlast: "xs \<noteq> [] \<Longrightarrow> rev xs = last xs # rev (butlast xs)"
  by (cases xs rule: rev_cases) simp_all

lemma lastNonEmptyLine_last:
  assumes "last (split_nl s) \<noteq> []"
  shows "lastNonEmptyLine s = Some (last (split_nl s))"
proof -
  have "split_nl s \<noteq> []" by (simp add: split_nl_def)
  then have r: "rev (split_nl s) = last (split_nl s) # rev (butlast (split_nl s))"
    by (rule rev_last_butlast)
  show ?thesis unfolding lastNonEmptyLine_def r using assms by simp
qed

lemma SEMI_not_NL: "SEMI \<noteq> NL"
  by (simp add: SEMI_def NL_def)

lemma lastNonEmptyLine_Nil: "lastNonEmptyLine [] = None"
  by (simp add: lastNonEmptyLine_def split_nl_def)

lemma unterminated_last_line:
  assumes "lastNonEmptyLine s = Some l" and "\<not> endsWith l SEMI"
  shows "s \<noteq> []" and "\<not> endsWith s SEMI" and "\<not> endsWith (last (split_nl s)) SEMI"
proof -
  show "s \<noteq> []" using assms(1) lastNonEmptyLine_Nil by auto
  show "\<not> endsWith s SEMI"
  proof
    assume "endsWith s SEMI"
    then obtain s' where s: "s = s' @ [SEMI]"
      by (cases s rule: rev_cases) simp_all
    have "lastNonEmptyLine s = Some (last (split_nl s') @ [SEMI])"
      unfolding s using SEMI_not_NL by (rule lastNonEmptyLine_snoc)
    then show False using assms by simp
  qed
  show "\<not> endsWith (last (split_nl s)) SEMI"
  proof (cases "last (split_nl s) = []")
    case True
    then show ?thesis by simp
  next
    case False
    then show ?thesis using lastNonEmptyLine_last [of s] assms by simp
  qed
qed

lemmas flow_defs = ensureSemicolon_def ensureSemicolonLastLine_def lastNonEmptyLine_def
  split_nl_def endsWithOne_def stripPipes_def Let_def

section \<open>The pipe stripping of the story flow\<close>

text \<open>
  Claim C4 on a text with two leading pipes: one pipe is left at the head of the result,
  and stripping the result again changes it. The same happens with two trailing pipes.
\<close>

theorem strip_pipes_doubled_pipe:
  "stripPipes (str ''|| 04 Quartos'') = str ''| 04 Quartos'' \<and>
   startsWith (stripPipes (str ''|| 04 Quartos'')) PIPE \<and>
   stripPipes (stripPipes (str ''|| 04 Quartos'')) = str ''04 Quartos'' \<and>
   stripPipes (stripPipes (str ''|| 04 Quartos'')) \<noteq> stripPipes (str ''|| 04 Quartos'') \<and>
   stripPipes (str ''04 Quartos | |'') = str ''04 Quartos |'' \<and>
   endsWith (stripPipes (str ''04 Quartos | |'')) PIPE \<and>
   generateStoryTextFlow P (Inr (Some (JString (str ''|| 04 Quartos'')))) = Inr (str ''| 04 Quartos'')"
  by (simp add: string_consts string_ops flow_defs generateStoryTextFlow_def)


section \<open>Currency formatting\<close>

lemmas currency_defs = formatCurrency_def normalizePrice_def removeDots_def parseFloat_def
  unsignedDecimal_def exponentPart_def signedInteger_def scale10_def digitsValue_def isDigit_def
  literalValue_def doubleOverflow_def

lemma formatCurrency_example:
  "formatCurrency P (str ''350.000,00'') = currencyFormat P (Finite 350000)"
  by (simp add: string_consts string_ops currency_defs Let_def)

lemma formatCurrency_example_marker:
  "formatCurrency P (str ''R$ 350.000,00'') = currencyFormat P (Finite 350000)"
  by (simp add: string_consts string_ops currency_defs Let_def)

lemma parseFloat_abc: "parseFloat (normalizePrice (str ''abc'')) = NaN"
  by (simp add: string_consts string_ops currency_defs Let_def)

section \<open>Failure of the adapter\<close>

lemma tryDescription_unusable:
  "unusable aiResult \<Longrightarrow> \<exists>e. tryDescription P data aiResult = Inl e"
  by (auto simp: unusable_def tryDescription_def split: sum.splits option.splits jsvalue.splits)

lemma unusable_formatPropertyFeatures:
  "(case output of Inr (Some (JString s)) \<Rightarrow> s = [] | _ \<Rightarrow> True) \<Longrightarrow>
   unusable (formatPropertyFeatures output)"
  by (auto simp: unusable_def formatPropertyFeatures_def formatPropertyFeaturesFlow_def
      ensureSemicolon_def split: sum.splits option.splits jsvalue.splits)

lemma onSubmit_failure:
  assumes "unusable aiResult"
  shows "\<exists>message. onSubmit P data aiResult =
           [SetIsLoading True, SetGeneratedDescription [], ConsoleError,
            Toast Destructive errorTitle message, SetIsLoading False]"
proof -
  obtain e where "tryDescription P data aiResult = Inl e"
    using tryDescription_unusable [OF assms] by blast
  then show ?thesis by (simp add: onSubmit_def errorTitle_def)
qed

text \<open>
  Claim C7. When the result of the adapter is a rejection, is missing, is not a string
  or is the empty string, \<open>onSubmit\<close> clears the shown description, reports one
  destructive toast and sets no other description. The same holds for a submission
  whose prompt call throws or whose prompt output is missing, has a field that is not a
  string, or has the empty string: the flow rejects or returns the empty string, and the
  page reports the error.
\<close>

theorem upstream_empty_atomic:
  "(unusable aiResult \<longrightarrow>
      (\<exists>message. onSubmit P data aiResult =
         [SetIsLoading True, SetGeneratedDescription [], ConsoleError,
          Toast Destructive errorTitle message, SetIsLoading False]) \<and>
      shownDescriptions (onSubmit P data aiResult) = [[]]) \<and>
   ((case output of Inr (Some (JString s)) \<Rightarrow> s = [] | _ \<Rightarrow> True) \<longrightarrow>
      (\<exists>message. submit P data output =
         [SetIsLoading True, SetGeneratedDescription [], ConsoleError,
          Toast Destructive errorTitle message, SetIsLoading False]) \<and>
      shownDescriptions (submit P data output) = [[]])"
proof (intro conjI impI)
  assume u: "unusable aiResult"
  show e: "\<exists>message. onSubmit P data aiResult =
         [SetIsLoading True, SetGeneratedDescription [], ConsoleError,
          Toast Destructive errorTitle message, SetIsLoading False]"
    using u by (rule onSubmit_failure)
  then show "shownDescriptions (onSubmit P data aiResult) = [[]]"
    by (auto simp: shownDescriptions_def)
next
  assume "case output of Inr (Some (JString s)) \<Rightarrow> s = [] | _ \<Rightarrow> True"
  then have u: "unusable (formatPropertyFeatures output)"
    by (rule unusable_formatPropertyFeatures)
  show e: "\<exists>message. submit P data output =
         [SetIsLoading True, SetGeneratedDescription [], ConsoleError,
          Toast Destructive errorTitle message, SetIsLoading False]"
    unfolding submit_def using u by (rule onSubmit_failure)
  then show "shownDescriptions (submit P data output) = [[]]"
    by (auto simp: shownDescriptions_def)
qed

theorem upstream_empty_atomic_witness:
  "unusable (Inr (Some (JString []))) \<and>
   onSubmit samplePlatform
     \<lparr>codigo = str ''AP0123'', valor = str ''350.000,00'', bairro = str ''Centro'',
      cidade = str ''Belo Horizonte'', areaTotal = Finite 120, areaPrivada = Finite 90,
      descricaoAdicional = None, caracteristicasPrincipais = str ''3 quartos, 2 vagas''\<rparr>
     (Inr (Some (JString [])))
   = [SetIsLoading True, SetGeneratedDescription [], ConsoleError,
      Toast Destructive errorTitle featuresFailedMessage, SetIsLoading False] \<and>
   submit samplePlatform
     \<lparr>codigo = str ''AP0123'', valor = str ''350.000,00'', bairro = str ''Centro'',
      cidade = str ''Belo Horizonte'', areaTotal = Finite 120, areaPrivada = Finite 90,
      descricaoAdicional = None, caracteristicasPrincipais = str ''3 quartos, 2 vagas''\<rparr>
     (Inr None)
   = [SetIsLoading True, SetGeneratedDescription [], ConsoleError,
      Toast Destructive errorTitle invalidFeaturesMessage, SetIsLoading False] \<and>
   shownDescriptions (submit samplePlatform
     \<lparr>codigo = str ''AP0123'', valor = str ''350.000,00'', bairro = str ''Centro'',
      cidade = str ''Belo Horizonte'', areaTotal = Finite 120, areaPrivada = Finite 90,
      descricaoAdicional = None, caracteristicasPrincipais = str ''3 quartos, 2 vagas''\<rparr>
     (Inr None)) = [[]]"
  using upstream_empty_atomic [of "Inr (Some (JString []))" samplePlatform
     "\<lparr>codigo = str ''AP0123'', valor = str ''350.000,00'', bairro = str ''Centro'',
      cidade = str ''Belo Horizonte'', areaTotal = Finite 120, areaPrivada = Finite 90,
      descricaoAdicional = None, caracteristicasPrincipais = str ''3 quartos, 2 vagas''\<rparr>"
     "Inr None"]
  by (simp add: unusable_def onSubmit_def submit_def tryDescription_def errorDescription_def
      formatPropertyFeatures_def formatPropertyFeaturesFlow_def)


section \<open>Assembly of the description\<close>

lemma joinWith_Cons: "ys \<noteq> [] \<Longrightarrow> joinWith sep (x # ys) = x @ sep @ joinWith sep ys"
  by (cases ys) simp_all

lemma joinWith_append:
  "xs \<noteq> [] \<Longrightarrow> ys \<noteq> [] \<Longrightarrow>
   joinWith sep (xs @ ys) = joinWith sep xs @ sep @ joinWith sep ys"
proof (induction sep xs rule: joinWith.induct)
  case (1 sep)
  then show ?case by simp
next
  case (2 sep x)
  then show ?case by (simp add: joinWith_Cons)
next
  case (3 sep x y zs)
  then show ?case by simp
qed

lemma prefix_joinWith: "prefix x (joinWith sep (x # xs))"
  by (cases xs) simp_all

lemma joinWith_middle:
  "joinWith sep (xs @ l # ys) =
     (if xs = [] then [] else joinWith sep xs @ sep) @ l @
     (if ys = [] then [] else sep @ joinWith sep ys)"
proof (cases "xs = []")
  case True
  then show ?thesis by (simp add: joinWith_Cons)
next
  case False
  then show ?thesis by (simp add: joinWith_append joinWith_Cons)
qed

lemma sublist_joinWith_nth:
  assumes "i < length ls"
  shows "sublist (ls ! i) (joinWith sep ls)"
proof -
  have "ls = take i ls @ ls ! i # drop (Suc i) ls"
    using assms by (rule id_take_nth_drop)
  then have "joinWith sep ls =
     (if take i ls = [] then [] else joinWith sep (take i ls) @ sep) @ ls ! i @
     (if drop (Suc i) ls = [] then [] else sep @ joinWith sep (drop (Suc i) ls))"
    using joinWith_middle [of sep "take i ls" "ls ! i" "drop (Suc i) ls"] by simp
  then show ?thesis by (metis sublist_appendI)
qed

lemma sublist_joinWith_adjacent:
  assumes "Suc i < length ls"
  shows "sublist (ls ! i @ sep @ ls ! Suc i) (joinWith sep ls)"
proof -
  have i: "i < length ls" using assms by simp
  have "ls = take i ls @ ls ! i # drop (Suc i) ls"
    using i by (rule id_take_nth_drop)
  moreover have "drop (Suc i) ls = ls ! Suc i # drop (Suc (Suc i)) ls"
    using assms by (rule Cons_nth_drop_Suc [symmetric])
  ultimately have ls: "ls = (take i ls @ [ls ! i]) @ ls ! Suc i # drop (Suc (Suc i)) ls"
    by simp
  have "joinWith sep ls =
     (joinWith sep (take i ls @ [ls ! i]) @ sep) @ ls ! Suc i @
     (if drop (Suc (Suc i)) ls = [] then []
      else sep @ joinWith sep (drop (Suc (Suc i)) ls))"
    using joinWith_middle [of sep "take i ls @ [ls ! i]" "ls ! Suc i" "drop (Suc (Suc i)) ls"] ls
    by simp
  moreover have "joinWith sep (take i ls @ [ls ! i]) =
     (if take i ls = [] then [] else joinWith sep (take i ls) @ sep) @ ls ! i"
    using joinWith_middle [of sep "take i ls" "ls ! i" "[]"] by simp
  ultimately have "joinWith sep ls =
     (if take i ls = [] then [] else joinWith sep (take i ls) @ sep) @
     (ls ! i @ sep @ ls ! Suc i) @
     (if drop (Suc (Suc i)) ls = [] then []
      else sep @ joinWith sep (drop (Suc (Suc i)) ls))"
    by simp
  then show ?thesis by (metis sublist_appendI)
qed

lemma sublist_joinWith_inner:
  assumes "0 < i" and "Suc i < length ls"
  shows "sublist (sep @ ls ! i @ sep) (joinWith sep ls)"
proof -
  have i: "i < length ls" using assms by simp
  have ls: "ls = take i ls @ ls ! i # drop (Suc i) ls"
    using i by (rule id_take_nth_drop)
  have t: "take i ls \<noteq> []" using assms by auto
  have dr: "drop (Suc i) ls \<noteq> []" using assms by simp
  have "joinWith sep ls =
     joinWith sep (take i ls) @ (sep @ ls ! i @ sep) @ joinWith sep (drop (Suc i) ls)"
    using joinWith_middle [of sep "take i ls" "ls ! i" "drop (Suc i) ls"] ls t dr by simp
  then show ?thesis by (metis sublist_appendI)
qed

lemma last_joinWith:
  assumes "ls \<noteq> []" and "last ls \<noteq> []"
  shows "last (joinWith sep ls) = last (last ls)"
proof -
  have "ls = butlast ls @ last ls # []" using assms(1) by simp
  then have "joinWith sep ls =
     (if butlast ls = [] then [] else joinWith sep (butlast ls) @ sep) @ last ls"
    using joinWith_middle [of sep "butlast ls" "last ls" "[]"] by simp
  then show ?thesis using assms(2) by simp
qed

lemma example_parts:
  assumes "toUpperCase P (str ''Centro'') = str ''CENTRO''"
    and "toUpperCase P (str ''Belo Horizonte'') = str ''BELO HORIZONTE''"
    and "numberFormat P (Finite 120) = str ''120''"
    and "numberFormat P (Finite 90) = str ''90''"
  shows "descriptionParts P
     \<lparr>codigo = str ''AP0123'', valor = str ''350.000,00'', bairro = str ''Centro'',
      cidade = str ''Belo Horizonte'', areaTotal = Finite 120, areaPrivada = Finite 90,
      descricaoAdicional = None, caracteristicasPrincipais = raw\<rparr>
     ([0x2705] @ str '' 3 quartos;'' @ [NL] @ [0x2705] @ str '' 2 vagas;'')
   = [str ''CENTRO - BELO HORIZONTE/MG'', [], codigoLabel @ str ''AP0123'', [],
      featuresHeader, [0x2705] @ str '' 3 quartos;'' @ [NL] @ [0x2705] @ str '' 2 vagas;'', [],
      areaTotalLabel @ str ''120'' @ squareMetres,
      areaPrivadaLabel @ str ''90'' @ squareMetres,
      valorLabel @ currencyFormat P (Finite 350000), []] @ contactLines"
  using assms formatCurrency_example [of P]
  by (simp add: descriptionParts_def Let_def trimStart_def isWhiteSpace_def str_def)

text \<open>
  Claim C6. On a platform that turns \<open>Centro\<close> and \<open>Belo Horizonte\<close> into upper case
  and renders 120 and 90 as \<open>120\<close> and \<open>90\<close>, the submission of the example shows one
  description: the fourteen lines below joined by line breaks. It begins with the
  location line, contains the code line, the header followed by the feature block as it
  is, both area lines and a line made of the value label and the platform's BRL
  rendering of 350000, and it does not end with a line break.
\<close>

theorem end_to_end_assembly:
  assumes "toUpperCase P (str ''Centro'') = str ''CENTRO''"
    and "toUpperCase P (str ''Belo Horizonte'') = str ''BELO HORIZONTE''"
    and "numberFormat P (Finite 120) = str ''120''"
    and "numberFormat P (Finite 90) = str ''90''"
    and "data = \<lparr>codigo = str ''AP0123'', valor = str ''350.000,00'', bairro = str ''Centro'',
      cidade = str ''Belo Horizonte'', areaTotal = Finite 120, areaPrivada = Finite 90,
      descricaoAdicional = None, caracteristicasPrincipais = raw\<rparr>"
    and "block = [0x2705] @ str '' 3 quartos;'' @ [NL] @ [0x2705] @ str '' 2 vagas;''"
    and "description = joinWith [NL] (descriptionParts P data block)"
  shows "onSubmit P data (Inr (Some (JString block))) =
           [SetIsLoading True, SetGeneratedDescription [], SetGeneratedDescription description,
            Toast Default successTitle successMessage, SetIsLoading False] \<and>
         descriptionParts P data block =
           [str ''CENTRO - BELO HORIZONTE/MG'', [], codigoLabel @ str ''AP0123'', [],
            featuresHeader, block, [],
            areaTotalLabel @ str ''120'' @ squareMetres,
            areaPrivadaLabel @ str ''90'' @ squareMetres,
            valorLabel @ currencyFormat P (Finite 350000), []] @ contactLines \<and>
         prefix (str ''CENTRO - BELO HORIZONTE/MG'') description \<and>
         sublist (codigoLabel @ str ''AP0123'') description \<and>
         sublist (featuresHeader @ [NL] @ block) description \<and>
         sublist (areaTotalLabel @ str ''120'' @ squareMetres) description \<and>
         sublist (areaPrivadaLabel @ str ''90'' @ squareMetres) description \<and>
         sublist ([NL] @ (valorLabel @ currencyFormat P (Finite 350000)) @ [NL]) description \<and>
         \<not> endsWith description NL"
proof -
  let ?L = "[str ''CENTRO - BELO HORIZONTE/MG'', [], codigoLabel @ str ''AP0123'', [],
            featuresHeader, block, [],
            areaTotalLabel @ str ''120'' @ squareMetres,
            areaPrivadaLabel @ str ''90'' @ squareMetres,
            valorLabel @ currencyFormat P (Finite 350000), []] @ contactLines"
  have parts: "descriptionParts P data block = ?L"
    unfolding assms(5,6) using assms(1-4) by (rule example_parts)
  have d: "description = joinWith [NL] ?L" using assms(7) parts by simp
  have ne: "block \<noteq> []" using assms(6) by simp
  have run: "onSubmit P data (Inr (Some (JString block))) =
           [SetIsLoading True, SetGeneratedDescription [], SetGeneratedDescription description,
            Toast Default successTitle successMessage, SetIsLoading False]"
    using ne assms(7) by (simp add: onSubmit_def tryDescription_def)
  have len: "length ?L = 14" by (simp add: contactLines_def)
  have p: "prefix (str ''CENTRO - BELO HORIZONTE/MG'') description"
    unfolding d append_Cons by (rule prefix_joinWith)
  have "sublist (?L ! 2) (joinWith [NL] ?L)"
    by (rule sublist_joinWith_nth) (simp add: len)
  then have c: "sublist (codigoLabel @ str ''AP0123'') description"
    unfolding d by simp
  have "sublist (?L ! 4 @ [NL] @ ?L ! Suc 4) (joinWith [NL] ?L)"
    by (rule sublist_joinWith_adjacent) (simp add: len)
  then have f: "sublist (featuresHeader @ [NL] @ block) description"
    unfolding d by simp
  have "sublist (?L ! 7) (joinWith [NL] ?L)"
    by (rule sublist_joinWith_nth) (simp add: len)
  then have t: "sublist (areaTotalLabel @ str ''120'' @ squareMetres) description"
    unfolding d by simp
  have "sublist (?L ! 8) (joinWith [NL] ?L)"
    by (rule sublist_joinWith_nth) (simp add: len)
  then have a: "sublist (areaPrivadaLabel @ str ''90'' @ squareMetres) description"
    unfolding d by simp
  have "sublist ([NL] @ ?L ! 9 @ [NL]) (joinWith [NL] ?L)"
    by (rule sublist_joinWith_inner) (simp_all add: len)
  then have v: "sublist ([NL] @ (valorLabel @ currencyFormat P (Finite 350000)) @ [NL]) description"
    unfolding d by simp
  have "last (joinWith [NL] ?L) = last (last ?L)"
    by (rule last_joinWith) (simp_all add: contactLines_def str_def)
  then have "last description = 0x47"
    unfolding d by (simp add: contactLines_def str_def)
  then have e: "\<not> endsWith description NL"
    by (simp add: endsWith_iff NL_def)
  show ?thesis using run parts p c f t a v e by simp
qed

theorem end_to_end_assembly_witness:
  "toUpperCase samplePlatform (str ''Centro'') = str ''CENTRO'' \<and>
   toUpperCase samplePlatform (str ''Belo Horizonte'') = str ''BELO HORIZONTE'' \<and>
   numberFormat samplePlatform (Finite 120) = str ''120'' \<and>
   numberFormat samplePlatform (Finite 90) = str ''90'' \<and>
   onSubmit samplePlatform
     \<lparr>codigo = str ''AP0123'', valor = str ''350.000,00'', bairro = str ''Centro'',
      cidade = str ''Belo Horizonte'', areaTotal = Finite 120, areaPrivada = Finite 90,
      descricaoAdicional = None, caracteristicasPrincipais = str ''3 quartos, 2 vagas''\<rparr>
     (Inr (Some (JString ([0x2705] @ str '' 3 quartos;'' @ [NL] @ [0x2705] @ str '' 2 vagas;''))))
   = [SetIsLoading True, SetGeneratedDescription [],
      SetGeneratedDescription
        (str ''CENTRO - BELO HORIZONTE/MG'' @ [NL, NL] @
         codigoLabel @ str ''AP0123'' @ [NL, NL] @
         featuresHeader @ [NL] @
         [0x2705] @ str '' 3 quartos;'' @ [NL] @ [0x2705] @ str '' 2 vagas;'' @ [NL, NL] @
         areaTotalLabel @ str ''120'' @ squareMetres @ [NL] @
         areaPrivadaLabel @ str ''90'' @ squareMetres @ [NL] @
         valorLabel @ str ''R$'' @ [0xA0] @ str ''350.000,00'' @ [NL, NL] @
         contactLines ! 0 @ [NL] @ contactLines ! 1 @ [NL] @ contactLines ! 2),
      Toast Default successTitle successMessage, SetIsLoading False]"
proof -
  have u1: "toUpperCase samplePlatform (str ''Centro'') = str ''CENTRO''"
    by (simp add: samplePlatform_def str_def)
  have u2: "toUpperCase samplePlatform (str ''Belo Horizonte'') = str ''BELO HORIZONTE''"
    by (simp add: samplePlatform_def str_def)
  have n1: "numberFormat samplePlatform (Finite 120) = str ''120''"
    by (simp add: samplePlatform_def)
  have n2: "numberFormat samplePlatform (Finite 90) = str ''90''"
    by (simp add: samplePlatform_def)
  have c: "currencyFormat samplePlatform (Finite 350000) = str ''R$'' @ [0xA0] @ str ''350.000,00''"
    by (simp add: samplePlatform_def)
  show ?thesis
    using end_to_end_assembly [OF u1 u2 n1 n2 refl refl refl, of "str ''3 quartos, 2 vagas''"] u1 u2 n1 n2 c
    by (simp add: contactLines_def)
qed


section \<open>Which parts go to which line\<close>

lemma place_appendPart:
  "place (f, s) part =
     (if length (f @ part @ SEP) \<le> 47 then (appendPart f part, s) else (f, appendPart s part))"
  by (simp add: appendPart_def)

lemma foldl_place_assign:
  "foldl place (f, s) parts =
     (foldl appendPart f (fst (assign f parts)), foldl appendPart s (snd (assign f parts)))"
proof (induction parts arbitrary: f s)
  case Nil
  show ?case by simp
next
  case (Cons p ps)
  show ?case
  proof (cases "length (f @ p @ SEP) \<le> 47")
    case True
    then show ?thesis
      using Cons.IH [of "appendPart f p" s]
      by (simp add: place_appendPart split_beta del: place.simps)
  next
    case False
    then show ?thesis
      using Cons.IH [of f "appendPart s p"]
      by (simp add: place_appendPart split_beta del: place.simps)
  qed
qed

lemma packLines_assign:
  "packLines parts =
     (foldl appendPart [] (firstLineParts parts), foldl appendPart [] (secondLineParts parts))"
  unfolding packLines_def firstLineParts_def secondLineParts_def by (rule foldl_place_assign)

lemma assign_subseq:
  "subseq (fst (assign f parts)) parts \<and> subseq (snd (assign f parts)) parts"
  by (induction parts arbitrary: f) (auto simp: split_beta)

lemma assign_mset:
  "mset (fst (assign f parts)) + mset (snd (assign f parts)) = mset parts"
  by (induction parts arbitrary: f) (simp_all add: split_beta)

lemma foldl_appendPart_nonempty:
  "l \<noteq> [] \<Longrightarrow> foldl appendPart l ts = l @ concat (map (\<lambda>t. SEP @ t) ts)"
  by (induction ts arbitrary: l) (simp_all add: appendPart_def)

lemma joinWith_concat: "joinWith sep (t # ts) = t @ concat (map (\<lambda>y. sep @ y) ts)"
  by (induction ts arbitrary: t) simp_all

lemma foldl_appendPart_join:
  "[] \<notin> set ts \<Longrightarrow> foldl appendPart [] ts = joinWith SEP ts"
proof (cases ts)
  case Nil
  then show ?thesis by simp
next
  case (Cons t us)
  assume "[] \<notin> set ts"
  then have "t \<noteq> []" using Cons by auto
  then have "foldl appendPart [] ts = t @ concat (map (\<lambda>y. SEP @ y) us)"
    using Cons foldl_appendPart_nonempty [of t us] by (simp add: appendPart_def)
  then show ?thesis using Cons by (simp add: joinWith_concat)
qed

section \<open>Trimming\<close>

lemma trim_id:
  assumes "s \<noteq> []" and "\<not> isWhiteSpace (hd s)" and "\<not> isWhiteSpace (last s)"
  shows "trim s = s"
proof -
  have a: "trimStart s = s" using assms(1,2) by (cases s) (simp_all add: trimStart_def)
  obtain s' c where s: "s = s' @ [c]"
    using assms(1) by (cases s rule: rev_cases) simp_all
  have "trimEnd s = s" using assms(3) unfolding s by (simp add: trimEnd_def)
  then show ?thesis using a by (simp add: trim_def)
qed

lemma trim_fixed_ends:
  assumes "trim s = s" and "s \<noteq> []"
  shows "\<not> isWhiteSpace (hd s) \<and> \<not> isWhiteSpace (last s)"
proof -
  have ts: "trimStart s = s"
  proof -
    have "length s = length (trimEnd (trimStart s))" using assms(1) by (simp add: trim_def)
    also have "\<dots> \<le> length (trimStart s)" by (rule length_trimEnd)
    finally have "length (trimStart s) = length s" using length_trimStart [of s] by simp
    then show ?thesis unfolding trimStart_def
      by (metis append_eq_conv_conj length_0_conv length_takeWhile_le takeWhile_dropWhile_id
          add_diff_cancel_right' length_append append_self_conv2 diff_self_eq_0)
  qed
  then have te: "trimEnd s = s" using assms(1) by (simp add: trim_def)
  have h: "\<not> isWhiteSpace (hd s)"
    using ts assms(2) unfolding trimStart_def by (metis hd_dropWhile)
  have "dropWhile isWhiteSpace (rev s) = rev s"
    using te unfolding trimEnd_def by (metis rev_rev_ident)
  then have "\<not> isWhiteSpace (hd (rev s))"
    using assms(2) by (metis hd_dropWhile rev_is_Nil_conv)
  then show ?thesis using h assms(2) by (simp add: hd_rev)
qed

lemma endsWith_trim:
  assumes "endsWith s c" and "\<not> isWhiteSpace c"
  shows "endsWith (trim s) c"
proof -
  obtain s' where s: "s = s' @ [c]"
    using assms(1) by (cases s rule: rev_cases) simp_all
  have "trimStart s = dropWhile isWhiteSpace s' @ [c]"
    unfolding s trimStart_def using assms(2) by (simp add: dropWhile_append3)
  then have "trim s = dropWhile isWhiteSpace s' @ [c]"
    using assms(2) by (simp add: trim_def trimEnd_def)
  then show ?thesis by simp
qed

lemma PIPE_not_space: "\<not> isWhiteSpace PIPE"
  by (simp add: isWhiteSpace_def PIPE_def)

section \<open>The second line keeps a trailing pipe\<close>

lemma endsWith_append: "ys \<noteq> [] \<Longrightarrow> endsWith (xs @ ys) c = endsWith ys c"
  by (simp add: endsWith_iff)

lemma endsWith_foldl_appendPart:
  assumes "ts \<noteq> []" and "endsWith (last ts) c"
  shows "endsWith (foldl appendPart l ts) c"
proof -
  obtain us t where ts: "ts = us @ [t]"
    using assms(1) by (cases ts rule: rev_cases) simp_all
  have t: "endsWith t c" and ne: "t \<noteq> []" using assms(2) ts by (simp_all add: endsWith_iff)
  have eq: "foldl appendPart l ts =
          (foldl appendPart l us @ (if foldl appendPart l us \<noteq> [] then SEP else [])) @ t"
    unfolding ts by (simp add: appendPart_def)
  have "endsWith ((foldl appendPart l us @
          (if foldl appendPart l us \<noteq> [] then SEP else [])) @ t) c"
    using t by (simp only: endsWith_append [OF ne])
  then show ?thesis unfolding eq .
qed

text \<open>
  Claim C10. The second output line is the trimmed second line of the loop and nothing
  more: no pipe is removed from it. So whenever the last part that the loop sends to the
  second line ends with a pipe, the second output line ends with that pipe, and so does
  the copied text.
\<close>

theorem second_line_keeps_pipe:
  "snd (splitLines parts) = trim (snd (packLines parts)) \<and>
   (secondLineParts parts \<noteq> [] \<and> endsWith (last (secondLineParts parts)) PIPE \<longrightarrow>
      endsWith (snd (splitLines parts)) PIPE) \<and>
   (secondLineParts (split_delim story) \<noteq> [] \<and>
    endsWith (last (secondLineParts (split_delim story))) PIPE \<longrightarrow>
      endsWith (textToCopy story) PIPE)"
proof -
  have snd_eq: "snd (splitLines ps) = trim (snd (packLines ps))" for ps
    by (simp add: splitLines_def Let_def split_beta)
  have pipe: "endsWith (snd (splitLines ps)) PIPE"
    if "secondLineParts ps \<noteq> []" and "endsWith (last (secondLineParts ps)) PIPE" for ps
  proof -
    have "endsWith (foldl appendPart [] (secondLineParts ps)) PIPE"
      using that by (rule endsWith_foldl_appendPart)
    then have "endsWith (snd (packLines ps)) PIPE" by (simp add: packLines_assign)
    then have "endsWith (trim (snd (packLines ps))) PIPE"
      using PIPE_not_space by (rule endsWith_trim)
    then show ?thesis by (simp add: snd_eq)
  qed
  have copy: "endsWith (textToCopy story) PIPE"
    if "secondLineParts (split_delim story) \<noteq> []"
      and "endsWith (last (secondLineParts (split_delim story))) PIPE"
  proof -
    have e: "endsWith (snd (splitLines (split_delim story))) PIPE" using that by (rule pipe)
    then have ne: "snd (splitLines (split_delim story)) \<noteq> []" by (simp add: endsWith_iff)
    have eq: "textToCopy story =
            (fst (splitLines (split_delim story)) @ [NL]) @ snd (splitLines (split_delim story))"
      using ne by (simp add: textToCopy_def Let_def split_beta)
    have "endsWith ((fst (splitLines (split_delim story)) @ [NL]) @
            snd (splitLines (split_delim story))) PIPE"
      using e by (simp only: endsWith_append [OF ne])
    then show ?thesis unfolding eq .
  qed
  show ?thesis using snd_eq pipe copy by blast
qed

lemmas splitter_eval = string_consts string_ops splitter_defs firstLineParts_def
  secondLineParts_def appendPart_def

theorem second_line_keeps_pipe_witness:
  "secondLineParts (split_delim (str ''04 Quartos| | 02 Vagas de Garagem com Churrasqueira e Piscina|''))
     = [str ''02 Vagas de Garagem com Churrasqueira e Piscina|''] \<and>
   endsWith (str ''02 Vagas de Garagem com Churrasqueira e Piscina|'') PIPE \<and>
   splitLines (split_delim (str ''04 Quartos| | 02 Vagas de Garagem com Churrasqueira e Piscina|''))
     = (str ''04 Quartos'', str ''02 Vagas de Garagem com Churrasqueira e Piscina|'') \<and>
   endsWith (textToCopy (str ''04 Quartos| | 02 Vagas de Garagem com Churrasqueira e Piscina|'')) PIPE"
  using second_line_keeps_pipe
    [of "split_delim (str ''04 Quartos| | 02 Vagas de Garagem com Churrasqueira e Piscina|'')"
        "str ''04 Quartos| | 02 Vagas de Garagem com Churrasqueira e Piscina|''"]
  by (simp add: splitter_eval)

section \<open>Cutting a joined line again\<close>

lemma split_from_short: "length rest < 3 \<Longrightarrow> split_from cur rest = [cur @ rest]"
proof (cases rest)
  case Nil
  then show ?thesis by simp
next
  case r: (Cons a r1)
  assume len: "length rest < 3"
  show ?thesis
  proof (cases r1)
    case Nil
    then show ?thesis using r by simp
  next
    case (Cons b r2)
    then have "r2 = []" using len r by simp
    then show ?thesis using r Cons by simp
  qed
qed

lemma split_from_step:
  "2 \<le> length u \<Longrightarrow>
   split_from cur (a # u) =
     (if prefix SEP (a # u) then cur # split_from [] (drop 2 u) else split_from (cur @ [a]) u)"
proof -
  assume "2 \<le> length u"
  then obtain b c rest where u: "u = b # c # rest"
    by (cases u; cases "tl u") auto
  show ?thesis unfolding u by (simp add: SEP_def)
qed


lemma prefix_SEP_append:
  "3 \<le> length xs \<Longrightarrow> prefix SEP (xs @ ys) \<longleftrightarrow> prefix SEP xs"
proof -
  assume len: "3 \<le> length xs"
  then obtain a b c r where "xs = a # b # c # r"
    by (cases xs; cases "tl xs"; cases "tl (tl xs)") auto
  then show ?thesis by (simp add: SEP_def)
qed

lemma split_from_join:
  "\<not> sublist SEP (t @ [SPACE, PIPE]) \<Longrightarrow>
   split_from cur (t @ SEP @ r) = (cur @ t) # split_from [] r"
proof (induction t arbitrary: cur)
  case Nil
  show ?case by (simp add: SEP_def)
next
  case (Cons a t)
  have np: "\<not> prefix SEP (a # t @ [SPACE, PIPE])" and ns: "\<not> sublist SEP (t @ [SPACE, PIPE])"
    using Cons.prems by (simp_all add: sublist_Cons_right)
  have "prefix SEP ((a # t @ [SPACE, PIPE]) @ (SPACE # r)) \<longleftrightarrow> prefix SEP (a # t @ [SPACE, PIPE])"
    by (rule prefix_SEP_append) simp
  then have "\<not> prefix SEP (a # t @ SEP @ r)" using np by (simp add: SEP_def)
  moreover have "2 \<le> length (t @ SEP @ r)" by (simp add: SEP_def)
  ultimately have "split_from cur (a # t @ SEP @ r) = split_from (cur @ [a]) (t @ SEP @ r)"
    by (simp add: split_from_step)
  then show ?case using Cons.IH [OF ns, of "cur @ [a]"] by simp
qed

lemma split_from_whole:
  "\<not> sublist SEP t \<Longrightarrow> split_from cur t = [cur @ t]"
proof (induction t arbitrary: cur)
  case Nil
  show ?case by simp
next
  case (Cons a t)
  have np: "\<not> prefix SEP (a # t)" and ns: "\<not> sublist SEP t"
    using Cons.prems by (simp_all add: sublist_Cons_right)
  show ?case
  proof (cases "2 \<le> length t")
    case True
    then have "split_from cur (a # t) = split_from (cur @ [a]) t"
      using np by (simp add: split_from_step)
    then show ?thesis using Cons.IH [OF ns, of "cur @ [a]"] by simp
  next
    case False
    then have "length (a # t) < 3" by simp
    then show ?thesis by (rule split_from_short)
  qed
qed

lemma split_delim_join:
  assumes "ts \<noteq> []"
    and "\<forall>t \<in> set ts. \<not> sublist SEP (t @ [SPACE, PIPE])"
  shows "split_delim (joinWith SEP ts) = ts"
  using assms
proof (induction SEP ts rule: joinWith.induct)
  case 1
  then show ?case by simp
next
  case (2 x)
  have "\<not> sublist SEP (x @ [SPACE, PIPE])" using 2 by simp
  then have "\<not> sublist SEP x"
    by (meson sublist_order.order_trans sublist_append_rightI)
  then show ?case by (simp add: split_delim_def split_from_whole)
next
  case (3 x y zs)
  have x: "\<not> sublist SEP (x @ [SPACE, PIPE])" using 3 by simp
  have "split_delim (joinWith SEP (y # zs)) = y # zs" using 3 by simp
  then show ?case using split_from_join [OF x, of "[]" "joinWith SEP (y # zs)"]
    by (simp add: split_delim_def)
qed

lemma suffix_same_length:
  "length xs = length zs \<Longrightarrow> suffix xs (ys @ zs) \<longleftrightarrow> xs = zs"
  by (auto simp: suffix_def)

lemma SEP_snoc: "SEP = [SPACE, PIPE] @ [SPACE]"
  by (simp add: SEP_def)

lemma SPACE_not_PIPE: "SPACE \<noteq> PIPE"
  by (simp add: SPACE_def PIPE_def)

lemma clean_no_overlap:
  assumes "\<not> endsWith t PIPE" and "\<not> sublist SEP t"
  shows "\<not> sublist SEP (t @ [SPACE, PIPE])"
proof
  assume "sublist SEP (t @ [SPACE, PIPE])"
  then have "sublist SEP ((t @ [SPACE]) @ [PIPE])" by simp
  then have "suffix SEP ((t @ [SPACE]) @ [PIPE]) \<or> sublist SEP (t @ [SPACE])"
    by (simp only: sublist_snoc)
  moreover have "\<not> suffix SEP ((t @ [SPACE]) @ [PIPE])"
    unfolding SEP_snoc snoc_suffix_snoc using SPACE_not_PIPE by simp
  ultimately have "sublist SEP (t @ [SPACE])" by blast
  then have "suffix SEP (t @ [SPACE]) \<or> sublist SEP t" by (simp only: sublist_snoc)
  then have "suffix ([SPACE, PIPE] @ [SPACE]) (t @ [SPACE])"
    using assms(2) by (simp add: SEP_def)
  then have "suffix ([SPACE] @ [PIPE]) t" unfolding snoc_suffix_snoc by simp
  then have "endsWith t PIPE" by (auto simp: suffix_def endsWith_iff)
  then show False using assms(1) by simp
qed

lemma split_from_no_delim:
  "t \<in> set (split_from cur s) \<Longrightarrow> \<not> sublist SEP (cur @ take 2 s) \<Longrightarrow> \<not> sublist SEP t"
proof (induction cur s rule: split_from.induct)
  case (1 cur a b c rest)
  have cur: "\<not> sublist SEP cur"
    using "1.prems"(2) by (meson sublist_order.order_trans sublist_append_rightI)
  show ?case
  proof (cases "a = SPACE \<and> b = PIPE \<and> c = SPACE")
    case True
    have short: "\<not> sublist SEP ([] @ take 2 rest)"
    proof
      assume "sublist SEP ([] @ take 2 rest)"
      then have "length SEP \<le> length ([] @ take 2 rest)" by (rule sublist_length_le)
      then show False by (simp add: SEP_def)
    qed
    from "1.prems"(1) True have "t = cur \<or> t \<in> set (split_from [] rest)" by simp
    then show ?thesis using cur "1.IH"(1) [OF True _ short] by blast
  next
    case False
    have "sublist SEP ((cur @ [a, b]) @ [c]) \<longleftrightarrow>
            suffix SEP ((cur @ [a, b]) @ [c]) \<or> sublist SEP (cur @ [a, b])"
      by (rule sublist_snoc)
    moreover have "\<not> suffix SEP ((cur @ [a, b]) @ [c])"
    proof -
      have "suffix SEP (cur @ [a, b, c]) \<longleftrightarrow> SEP = [a, b, c]"
        by (rule suffix_same_length) (simp add: SEP_def)
      then show ?thesis using False by (auto simp: SEP_def)
    qed
    moreover have "\<not> sublist SEP (cur @ [a, b])" using "1.prems"(2) by simp
    ultimately have "\<not> sublist SEP ((cur @ [a]) @ take 2 (b # c # rest))" by simp
    moreover have "t \<in> set (split_from (cur @ [a]) (b # c # rest))"
      using "1.prems"(1) False by simp
    ultimately show ?thesis using "1.IH"(2) [OF False] by blast
  qed
qed simp_all

lemma split_delim_no_delim: "t \<in> set (split_delim s) \<Longrightarrow> \<not> sublist SEP t"
proof -
  assume t: "t \<in> set (split_delim s)"
  have "\<not> sublist SEP ([] @ take 2 s)"
  proof
    assume "sublist SEP ([] @ take 2 s)"
    then have "length SEP \<le> length ([] @ take 2 s)" by (rule sublist_length_le)
    then show False by (simp add: SEP_def)
  qed
  then show ?thesis using t unfolding split_delim_def by (rule split_from_no_delim [rotated])
qed

section \<open>Lines of clean tokens\<close>

lemma assign_set:
  "set (fst (assign f parts)) \<subseteq> set parts \<and> set (snd (assign f parts)) \<subseteq> set parts"
  by (induction parts arbitrary: f) (auto simp: split_beta)

lemma joinWith_Nil_iff: "[] \<notin> set ts \<Longrightarrow> joinWith sep ts = [] \<longleftrightarrow> ts = []"
  by (cases ts) (auto simp: joinWith_concat)

lemma hd_joinWith: "t \<noteq> [] \<Longrightarrow> hd (joinWith sep (t # ts)) = hd t"
  by (simp add: joinWith_concat)

lemma trim_Nil: "trim [] = []"
  by (simp add: trim_def trimStart_def trimEnd_def)

lemma trim_join_clean:
  assumes "\<forall>t \<in> set ts. cleanToken t"
  shows "trim (joinWith SEP ts) = joinWith SEP ts"
proof (cases ts)
  case Nil
  then show ?thesis by (simp add: trim_Nil)
next
  case (Cons t us)
  have t: "t \<noteq> []" "trim t = t" using assms Cons by (simp_all add: cleanToken_def)
  have l: "last ts \<noteq> []" "trim (last ts) = last ts"
    using assms Cons last_in_set [of ts] by (simp_all add: cleanToken_def)
  have ne: "joinWith SEP ts \<noteq> []" using t Cons by (simp add: joinWith_concat)
  have "hd (joinWith SEP ts) = hd t" using t Cons by (simp add: hd_joinWith)
  then have h: "\<not> isWhiteSpace (hd (joinWith SEP ts))"
    using trim_fixed_ends [OF t(2) t(1)] by simp
  have "last (joinWith SEP ts) = last (last ts)"
    using Cons l(1) by (intro last_joinWith) simp_all
  then have e: "\<not> isWhiteSpace (last (joinWith SEP ts))"
    using trim_fixed_ends [OF l(2) l(1)] by simp
  show ?thesis using ne h e by (rule trim_id)
qed

lemma no_pipe_join_clean:
  assumes "\<forall>t \<in> set ts. cleanToken t"
  shows "\<not> endsWith (joinWith SEP ts) PIPE"
proof (cases "ts = []")
  case True
  then show ?thesis by simp
next
  case False
  then have l: "last ts \<noteq> []" "\<not> endsWith (last ts) PIPE"
    using assms last_in_set [of ts] by (simp_all add: cleanToken_def)
  have "last (joinWith SEP ts) = last (last ts)"
    using False l(1) by (rule last_joinWith)
  then show ?thesis using l by (simp add: endsWith_iff)
qed

lemma splitLines_clean:
  assumes "\<forall>t \<in> set parts. cleanToken t"
  shows "splitLines parts =
           (joinWith SEP (firstLineParts parts), joinWith SEP (secondLineParts parts))"
proof -
  have a: "\<forall>t \<in> set (firstLineParts parts). cleanToken t"
    and b: "\<forall>t \<in> set (secondLineParts parts). cleanToken t"
    using assms assign_set [of "[]" parts]
    by (auto simp: firstLineParts_def secondLineParts_def)
  have "[] \<notin> set (firstLineParts parts)" and "[] \<notin> set (secondLineParts parts)"
    using a b by (auto simp: cleanToken_def)
  then have p: "packLines parts =
                  (joinWith SEP (firstLineParts parts), joinWith SEP (secondLineParts parts))"
    by (simp add: packLines_assign foldl_appendPart_join)
  show ?thesis
    using trim_join_clean [OF a] trim_join_clean [OF b] no_pipe_join_clean [OF a]
    by (simp add: splitLines_def p)
qed

lemma lineTokens_join_clean:
  assumes "\<forall>t \<in> set ts. cleanToken t \<and> \<not> sublist SEP t"
  shows "lineTokens (joinWith SEP ts) = ts"
proof (cases "ts = []")
  case True
  then show ?thesis by (simp add: lineTokens_def)
next
  case False
  have "[] \<notin> set ts" using assms by (auto simp: cleanToken_def)
  then have ne: "joinWith SEP ts \<noteq> []" using False by (simp add: joinWith_Nil_iff)
  have "\<forall>t \<in> set ts. \<not> sublist SEP (t @ [SPACE, PIPE])"
  proof
    fix t assume "t \<in> set ts"
    then have "\<not> endsWith t PIPE" and "\<not> sublist SEP t"
      using assms by (simp_all add: cleanToken_def)
    then show "\<not> sublist SEP (t @ [SPACE, PIPE])" by (rule clean_no_overlap)
  qed
  then have "split_delim (joinWith SEP ts) = ts" using False by (intro split_delim_join)
  then show ?thesis using ne by (simp add: lineTokens_def)
qed

lemma lineTokens_splitLines:
  assumes "\<forall>t \<in> set parts. cleanToken t \<and> \<not> sublist SEP t"
  shows "lineTokens (fst (splitLines parts)) = firstLineParts parts"
    and "lineTokens (snd (splitLines parts)) = secondLineParts parts"
proof -
  have c: "\<forall>t \<in> set parts. cleanToken t" using assms by blast
  have a: "\<forall>t \<in> set (firstLineParts parts). cleanToken t \<and> \<not> sublist SEP t"
    and b: "\<forall>t \<in> set (secondLineParts parts). cleanToken t \<and> \<not> sublist SEP t"
    using assms assign_set [of "[]" parts]
    by (auto simp: firstLineParts_def secondLineParts_def)
  show "lineTokens (fst (splitLines parts)) = firstLineParts parts"
    using lineTokens_join_clean [OF a] by (simp add: splitLines_clean [OF c])
  show "lineTokens (snd (splitLines parts)) = secondLineParts parts"
    using lineTokens_join_clean [OF b] by (simp add: splitLines_clean [OF c])
qed

lemmas token_eval = cleanToken_def sublist_Cons_right

text \<open>
  Claim C8, as the code has it. For every list of tokens that are not empty, have no
  white space at either end and do not end with a pipe, each output line is the join of
  the parts that the loop sent to it, so no token is cut or changed, and the parts of
  the two lines together are the tokens of the input, each as often as in the input.
  When no token contains the delimiter, cutting the two output lines at the delimiter
  gives these tokens back. Nothing is said about their order across the two lines.
\<close>

theorem tokens_preserved:
  assumes "\<forall>t \<in> set parts. cleanToken t"
  shows "fst (splitLines parts) = joinWith SEP (firstLineParts parts) \<and>
         snd (splitLines parts) = joinWith SEP (secondLineParts parts) \<and>
         mset (firstLineParts parts) + mset (secondLineParts parts) = mset parts \<and>
         ((\<forall>t \<in> set parts. \<not> sublist SEP t) \<longrightarrow>
            mset (lineTokens (fst (splitLines parts))) +
            mset (lineTokens (snd (splitLines parts))) = mset parts)"
proof -
  have m: "mset (firstLineParts parts) + mset (secondLineParts parts) = mset parts"
    unfolding firstLineParts_def secondLineParts_def by (rule assign_mset)
  have "mset (lineTokens (fst (splitLines parts))) +
        mset (lineTokens (snd (splitLines parts))) = mset parts"
    if "\<forall>t \<in> set parts. \<not> sublist SEP t"
  proof -
    have "\<forall>t \<in> set parts. cleanToken t \<and> \<not> sublist SEP t" using assms that by blast
    then show ?thesis using lineTokens_splitLines m by simp
  qed
  then show ?thesis using m splitLines_clean [OF assms] by simp
qed

theorem tokens_preserved_witness:
  "list_all (\<lambda>t. cleanToken t \<and> \<not> sublist SEP t)
     [str ''04 Quartos'', str ''02 Banheiros'', str ''04 Vagas de Garagem Cobertas'',
      str ''Piscina'', str ''Aquecimento Solar''] \<and>
   splitLines [str ''04 Quartos'', str ''02 Banheiros'', str ''04 Vagas de Garagem Cobertas'',
               str ''Piscina'', str ''Aquecimento Solar'']
     = (str ''04 Quartos | 02 Banheiros | Piscina'',
        str ''04 Vagas de Garagem Cobertas | Aquecimento Solar'') \<and>
   mset (lineTokens (str ''04 Quartos | 02 Banheiros | Piscina'')) +
   mset (lineTokens (str ''04 Vagas de Garagem Cobertas | Aquecimento Solar''))
     = mset [str ''04 Quartos'', str ''02 Banheiros'', str ''04 Vagas de Garagem Cobertas'',
             str ''Piscina'', str ''Aquecimento Solar'']"
proof -
  have h: "\<forall>t \<in> set [str ''04 Quartos'', str ''02 Banheiros'', str ''04 Vagas de Garagem Cobertas'',
                str ''Piscina'', str ''Aquecimento Solar'']. cleanToken t"
    by (simp add: splitter_eval token_eval)
  have d: "\<forall>t \<in> set [str ''04 Quartos'', str ''02 Banheiros'', str ''04 Vagas de Garagem Cobertas'',
                str ''Piscina'', str ''Aquecimento Solar'']. \<not> sublist SEP t"
    by (simp add: splitter_eval token_eval)
  have s: "splitLines [str ''04 Quartos'', str ''02 Banheiros'', str ''04 Vagas de Garagem Cobertas'',
               str ''Piscina'', str ''Aquecimento Solar'']
     = (str ''04 Quartos | 02 Banheiros | Piscina'',
        str ''04 Vagas de Garagem Cobertas | Aquecimento Solar'')"
    by (simp add: splitter_eval)
  have "mset (lineTokens (fst (splitLines [str ''04 Quartos'', str ''02 Banheiros'',
          str ''04 Vagas de Garagem Cobertas'', str ''Piscina'', str ''Aquecimento Solar'']))) +
        mset (lineTokens (snd (splitLines [str ''04 Quartos'', str ''02 Banheiros'',
          str ''04 Vagas de Garagem Cobertas'', str ''Piscina'', str ''Aquecimento Solar''])))
     = mset [str ''04 Quartos'', str ''02 Banheiros'', str ''04 Vagas de Garagem Cobertas'',
             str ''Piscina'', str ''Aquecimento Solar'']"
    using tokens_preserved [OF h] d by blast
  then have m: "mset (lineTokens (str ''04 Quartos | 02 Banheiros | Piscina'')) +
   mset (lineTokens (str ''04 Vagas de Garagem Cobertas | Aquecimento Solar''))
     = mset [str ''04 Quartos'', str ''02 Banheiros'', str ''04 Vagas de Garagem Cobertas'',
             str ''Piscina'', str ''Aquecimento Solar'']"
    unfolding s fst_conv snd_conv .
  have h': "list_all (\<lambda>t. cleanToken t \<and> \<not> sublist SEP t)
     [str ''04 Quartos'', str ''02 Banheiros'', str ''04 Vagas de Garagem Cobertas'',
      str ''Piscina'', str ''Aquecimento Solar'']"
    using h d unfolding list_all_iff by blast
  show ?thesis using h' s m by (intro conjI)
qed

text \<open>
  Claim C8 as stated fails for a list with an empty token. The empty token has no white
  space at its ends and no pipe at its end, and the loop sends it to the first line; but
  the first line comes out as the second token alone, so the empty token is dropped.
\<close>

theorem tokens_preserved_counterexample:
  "trim [] = [] \<and> \<not> endsWith [] PIPE \<and>
   trim (str ''Piscina'') = str ''Piscina'' \<and> \<not> endsWith (str ''Piscina'') PIPE \<and>
   split_delim (str '' | Piscina'') = [[], str ''Piscina''] \<and>
   firstLineParts [[], str ''Piscina''] = [[], str ''Piscina''] \<and>
   splitLines [[], str ''Piscina''] = (str ''Piscina'', []) \<and>
   joinWith SEP [[], str ''Piscina''] = str '' | Piscina'' \<and>
   lineTokens (str ''Piscina'') @ lineTokens [] = [str ''Piscina''] \<and>
   count (mset (lineTokens (str ''Piscina'') @ lineTokens [])) [] = 0 \<and>
   count (mset [[], str ''Piscina'']) [] = 1"
  by (simp add: splitter_eval)

text \<open>
  Claim C2, as the code has it. For every input whose tokens are not empty, have no white
  space at either end and do not end with a pipe, cutting each output line at the
  delimiter gives the parts that the loop sent to that line: two subsequences of the
  original token sequence that together have as many tokens as the input. The two
  lists one after the other are the original sequence when no part sent to the first
  line comes after a part sent to the second.
\<close>

theorem resplit_each_line:
  assumes "parts = split_delim story" and "\<forall>t \<in> set parts. cleanToken t"
  shows "subseq (lineTokens (fst (splitLines parts))) parts \<and>
         subseq (lineTokens (snd (splitLines parts))) parts \<and>
         length (lineTokens (fst (splitLines parts))) + length (lineTokens (snd (splitLines parts)))
           = length parts \<and>
         lineTokens (fst (splitLines parts)) = firstLineParts parts \<and>
         lineTokens (snd (splitLines parts)) = secondLineParts parts \<and>
         (firstLineParts parts @ secondLineParts parts = parts \<longrightarrow>
            lineTokens (fst (splitLines parts)) @ lineTokens (snd (splitLines parts)) = parts)"
proof -
  have d: "\<forall>t \<in> set parts. cleanToken t \<and> \<not> sublist SEP t"
    using assms split_delim_no_delim by blast
  have s: "subseq (firstLineParts parts) parts \<and> subseq (secondLineParts parts) parts"
    unfolding firstLineParts_def secondLineParts_def by (rule assign_subseq)
  have "mset (firstLineParts parts) + mset (secondLineParts parts) = mset parts"
    unfolding firstLineParts_def secondLineParts_def by (rule assign_mset)
  then have "size (mset (firstLineParts parts) + mset (secondLineParts parts)) = size (mset parts)"
    by simp
  then have l: "length (firstLineParts parts) + length (secondLineParts parts) = length parts"
    by simp
  show ?thesis using lineTokens_splitLines [OF d] s l by simp
qed

theorem resplit_each_line_witness:
  "split_delim (str ''04 Quartos | 02 Banheiros | 04 Vagas de Garagem Cobertas | Piscina | Aquecimento Solar'')
     = [str ''04 Quartos'', str ''02 Banheiros'', str ''04 Vagas de Garagem Cobertas'',
        str ''Piscina'', str ''Aquecimento Solar''] \<and>
   list_all cleanToken
     [str ''04 Quartos'', str ''02 Banheiros'', str ''04 Vagas de Garagem Cobertas'',
      str ''Piscina'', str ''Aquecimento Solar''] \<and>
   lineTokens (fst (splitLines [str ''04 Quartos'', str ''02 Banheiros'',
        str ''04 Vagas de Garagem Cobertas'', str ''Piscina'', str ''Aquecimento Solar'']))
     = [str ''04 Quartos'', str ''02 Banheiros'', str ''Piscina''] \<and>
   lineTokens (snd (splitLines [str ''04 Quartos'', str ''02 Banheiros'',
        str ''04 Vagas de Garagem Cobertas'', str ''Piscina'', str ''Aquecimento Solar'']))
     = [str ''04 Vagas de Garagem Cobertas'', str ''Aquecimento Solar''] \<and>
   subseq [str ''04 Quartos'', str ''02 Banheiros'', str ''Piscina'']
     [str ''04 Quartos'', str ''02 Banheiros'', str ''04 Vagas de Garagem Cobertas'',
      str ''Piscina'', str ''Aquecimento Solar''] \<and>
   subseq [str ''04 Vagas de Garagem Cobertas'', str ''Aquecimento Solar'']
     [str ''04 Quartos'', str ''02 Banheiros'', str ''04 Vagas de Garagem Cobertas'',
      str ''Piscina'', str ''Aquecimento Solar'']"
proof -
  have p: "[str ''04 Quartos'', str ''02 Banheiros'', str ''04 Vagas de Garagem Cobertas'',
        str ''Piscina'', str ''Aquecimento Solar'']
      = split_delim (str ''04 Quartos | 02 Banheiros | 04 Vagas de Garagem Cobertas | Piscina | Aquecimento Solar'')"
    by (simp add: splitter_eval)
  have h: "\<forall>t \<in> set [str ''04 Quartos'', str ''02 Banheiros'', str ''04 Vagas de Garagem Cobertas'',
                str ''Piscina'', str ''Aquecimento Solar'']. cleanToken t"
    by (simp add: splitter_eval token_eval)
  have a: "firstLineParts [str ''04 Quartos'', str ''02 Banheiros'',
        str ''04 Vagas de Garagem Cobertas'', str ''Piscina'', str ''Aquecimento Solar'']
     = [str ''04 Quartos'', str ''02 Banheiros'', str ''Piscina'']"
    by (simp add: splitter_eval)
  have b: "secondLineParts [str ''04 Quartos'', str ''02 Banheiros'',
        str ''04 Vagas de Garagem Cobertas'', str ''Piscina'', str ''Aquecimento Solar'']
     = [str ''04 Vagas de Garagem Cobertas'', str ''Aquecimento Solar'']"
    by (simp add: splitter_eval)
  note r = resplit_each_line [OF p h]
  have l1: "lineTokens (fst (splitLines [str ''04 Quartos'', str ''02 Banheiros'',
        str ''04 Vagas de Garagem Cobertas'', str ''Piscina'', str ''Aquecimento Solar'']))
     = [str ''04 Quartos'', str ''02 Banheiros'', str ''Piscina'']"
    using r a by (simp only:)
  have l2: "lineTokens (snd (splitLines [str ''04 Quartos'', str ''02 Banheiros'',
        str ''04 Vagas de Garagem Cobertas'', str ''Piscina'', str ''Aquecimento Solar'']))
     = [str ''04 Vagas de Garagem Cobertas'', str ''Aquecimento Solar'']"
    using r b by (simp only:)
  have s1: "subseq [str ''04 Quartos'', str ''02 Banheiros'', str ''Piscina'']
     [str ''04 Quartos'', str ''02 Banheiros'', str ''04 Vagas de Garagem Cobertas'',
      str ''Piscina'', str ''Aquecimento Solar'']"
    using r unfolding l1 by (rule conjunct1)
  have s2: "subseq [str ''04 Vagas de Garagem Cobertas'', str ''Aquecimento Solar'']
     [str ''04 Quartos'', str ''02 Banheiros'', str ''04 Vagas de Garagem Cobertas'',
      str ''Piscina'', str ''Aquecimento Solar'']"
    using r unfolding l2 by blast
  have h': "list_all cleanToken
     [str ''04 Quartos'', str ''02 Banheiros'', str ''04 Vagas de Garagem Cobertas'',
      str ''Piscina'', str ''Aquecimento Solar'']"
    using h unfolding list_all_iff .
  show ?thesis using p [symmetric] h' l1 l2 s1 s2 by (intro conjI)
qed

text \<open>
  Claim C2 as stated fails for a caption of 86 code units: the third token does not fit
  the first line, the fourth does, and the tokens cut from the two output lines come in
  another order than in the input, however the two lines are put together.
\<close>

theorem resplit_order_counterexample:
  "split_delim (str ''04 Quartos | 02 Banheiros | 04 Vagas de Garagem Cobertas | Piscina | Aquecimento Solar'')
     = [str ''04 Quartos'', str ''02 Banheiros'', str ''04 Vagas de Garagem Cobertas'',
        str ''Piscina'', str ''Aquecimento Solar''] \<and>
   splitLines [str ''04 Quartos'', str ''02 Banheiros'', str ''04 Vagas de Garagem Cobertas'',
               str ''Piscina'', str ''Aquecimento Solar'']
     = (str ''04 Quartos | 02 Banheiros | Piscina'',
        str ''04 Vagas de Garagem Cobertas | Aquecimento Solar'') \<and>
   split_delim (str ''04 Quartos | 02 Banheiros | Piscina'' @
                str ''04 Vagas de Garagem Cobertas | Aquecimento Solar'')
     = [str ''04 Quartos'', str ''02 Banheiros'', str ''Piscina04 Vagas de Garagem Cobertas'',
        str ''Aquecimento Solar''] \<and>
   split_delim (str ''04 Quartos | 02 Banheiros | Piscina'') @
   split_delim (str ''04 Vagas de Garagem Cobertas | Aquecimento Solar'')
     = [str ''04 Quartos'', str ''02 Banheiros'', str ''Piscina'',
        str ''04 Vagas de Garagem Cobertas'', str ''Aquecimento Solar''] \<and>
   [str ''04 Quartos'', str ''02 Banheiros'', str ''Piscina'',
    str ''04 Vagas de Garagem Cobertas'', str ''Aquecimento Solar'']
     \<noteq> [str ''04 Quartos'', str ''02 Banheiros'', str ''04 Vagas de Garagem Cobertas'',
         str ''Piscina'', str ''Aquecimento Solar''] \<and>
   [str ''04 Quartos'', str ''02 Banheiros'', str ''Piscina04 Vagas de Garagem Cobertas'',
    str ''Aquecimento Solar'']
     \<noteq> [str ''04 Quartos'', str ''02 Banheiros'', str ''04 Vagas de Garagem Cobertas'',
         str ''Piscina'', str ''Aquecimento Solar''] \<and>
   textToCopy (str ''04 Quartos | 02 Banheiros | 04 Vagas de Garagem Cobertas | Piscina | Aquecimento Solar'')
     = str ''04 Quartos | 02 Banheiros | Piscina'' @ [NL] @
       str ''04 Vagas de Garagem Cobertas | Aquecimento Solar''"
  by (simp add: string_consts string_ops split_delim_def splitLines_def packLines_def
      textToCopy_def Let_def)


section \<open>The repair step on whole texts\<close>

lemma trimEnd_prefix: "prefix (trimEnd u) u"
proof -
  have "rev u = takeWhile isWhiteSpace (rev u) @ dropWhile isWhiteSpace (rev u)" by simp
  then have "u = rev (dropWhile isWhiteSpace (rev u)) @ rev (takeWhile isWhiteSpace (rev u))"
    by (metis rev_append rev_rev_ident)
  then show ?thesis unfolding trimEnd_def by (metis prefixI)
qed

lemma trim_ends:
  assumes "trim s \<noteq> []"
  shows "\<not> isWhiteSpace (hd (trim s))" and "\<not> isWhiteSpace (last (trim s))"
proof -
  let ?u = "trimStart s"
  have v: "trim s = trimEnd ?u" by (simp add: trim_def)
  have u: "?u \<noteq> []" using assms v by (auto simp: trimEnd_def)
  then have hu: "\<not> isWhiteSpace (hd ?u)" unfolding trimStart_def by (rule hd_dropWhile)
  obtain r where "?u = trimEnd ?u @ r" using trimEnd_prefix [of ?u] by (auto simp: prefix_def)
  then have "hd ?u = hd (trimEnd ?u)" using assms v by (metis hd_append2)
  then show "\<not> isWhiteSpace (hd (trim s))" using hu v by simp
  have d: "dropWhile isWhiteSpace (rev ?u) \<noteq> []" using assms v by (simp add: trimEnd_def)
  then have "\<not> isWhiteSpace (hd (dropWhile isWhiteSpace (rev ?u)))" by (rule hd_dropWhile)
  then show "\<not> isWhiteSpace (last (trim s))"
    using d v by (simp add: trimEnd_def last_rev)
qed

lemma trim_trim: "trim (trim s) = trim s"
proof (cases "trim s = []")
  case True
  then show ?thesis by (simp add: trim_Nil)
next
  case False
  then show ?thesis using trim_ends [OF False] by (intro trim_id)
qed

lemma joinWith_lines_from: "joinWith [NL] (lines_from cur u) = cur @ u"
proof (induction u arbitrary: cur)
  case Nil
  show ?case by simp
next
  case (Cons c cs)
  show ?case
  proof (cases "c = NL")
    case True
    have "joinWith [NL] (cur # lines_from [] cs) = cur @ [NL] @ joinWith [NL] (lines_from [] cs)"
      by (rule joinWith_Cons) simp
    then show ?thesis using True Cons.IH [of "[]"] by simp
  next
    case False
    then show ?thesis using Cons.IH [of "cur @ [c]"] by simp
  qed
qed

lemma NL_space: "isWhiteSpace NL"
  by (simp add: isWhiteSpace_def NL_def)

lemma SEMI_not_space: "\<not> isWhiteSpace SEMI"
  by (simp add: isWhiteSpace_def SEMI_def)

lemma repair_last_line:
  assumes "t \<noteq> []" and "\<not> isWhiteSpace (last t)" and "\<not> endsWith t SEMI"
  shows "last (split_nl t) \<noteq> []"
    and "\<not> endsWith (last (split_nl t)) SEMI"
    and "joinWith [NL] (butlast (split_nl t) @ [last (split_nl t) @ [SEMI]]) = t @ [SEMI]"
proof -
  obtain t' c where t: "t = t' @ [c]" using assms(1) by (cases t rule: rev_cases) simp_all
  have c: "c \<noteq> NL" "c \<noteq> SEMI" using assms(2,3) NL_space t by auto
  have l: "last (split_nl t) = last (split_nl t') @ [c]"
    unfolding t split_nl_def using c(1) by (simp add: lines_from_snoc)
  show "last (split_nl t) \<noteq> []" using l by simp
  show "\<not> endsWith (last (split_nl t)) SEMI" using l c(2) by simp
  have "butlast (split_nl t) @ [last (split_nl t) @ [SEMI]] = split_nl (t @ [SEMI])"
    unfolding split_nl_def using SEMI_not_NL by (simp add: lines_from_snoc)
  then show "joinWith [NL] (butlast (split_nl t) @ [last (split_nl t) @ [SEMI]]) = t @ [SEMI]"
    by (simp add: split_nl_def joinWith_lines_from)
qed

lemma ensureSemicolonLastLine_cases:
  "ensureSemicolonLastLine s =
     (if trim s = [] \<or> endsWith (trim s) SEMI then trim s else trim s @ [SEMI])"
proof (cases "trim s = [] \<or> endsWith (trim s) SEMI")
  case True
  show ?thesis
  proof (cases "s \<noteq> [] \<and> \<not> endsWith (trim s) SEMI")
    case False
    then show ?thesis using True by (auto simp: ensureSemicolonLastLine_def)
  next
    case nonempty: True
    then have "trim s = []" using True by simp
    then show ?thesis using nonempty
      by (simp add: ensureSemicolonLastLine_def split_nl_def)
  qed
next
  case False
  then have ne: "trim s \<noteq> []" and ns: "\<not> endsWith (trim s) SEMI" by simp_all
  have s: "s \<noteq> []" using ne trim_Nil by auto
  note e = trim_ends [OF ne]
  note r = repair_last_line [OF ne e(2) ns]
  have "trim (trim s @ [SEMI]) = trim s @ [SEMI]"
    using ne e(1) SEMI_not_space by (intro trim_id) simp_all
  then show ?thesis
    using False s r by (simp add: ensureSemicolonLastLine_def Let_def)
qed

text \<open>
  Claim C3, as the code has it. When the last non-empty line of the text does not end
  with a semicolon, the repair appends one semicolon to the text, and the last non-empty
  line of the result ends with exactly one semicolon. The repair leaves a text unchanged
  when the text itself ends with a semicolon (or is empty), and repairing twice is the
  same as repairing once. The line-wise revision of the flow returns the trimmed text,
  with one semicolon appended when the trimmed text is not empty and does not end with
  one.
\<close>

theorem semicolon_repair:
  "(lastNonEmptyLine s = Some l \<and> \<not> endsWith l SEMI \<longrightarrow>
      ensureSemicolon s = s @ [SEMI] \<and>
      (\<exists>l'. lastNonEmptyLine (ensureSemicolon s) = Some l' \<and> endsWithOne l' SEMI)) \<and>
   (s = [] \<or> endsWith s SEMI \<longrightarrow> ensureSemicolon s = s) \<and>
   ensureSemicolon (ensureSemicolon s) = ensureSemicolon s \<and>
   ensureSemicolonLastLine s =
     (if trim s = [] \<or> endsWith (trim s) SEMI then trim s else trim s @ [SEMI])"
proof (intro conjI impI)
  assume h: "lastNonEmptyLine s = Some l \<and> \<not> endsWith l SEMI"
  then have ne: "s \<noteq> []" and ns: "\<not> endsWith s SEMI"
    and nl: "\<not> endsWith (last (split_nl s)) SEMI"
    using unterminated_last_line [of s l] by simp_all
  show r: "ensureSemicolon s = s @ [SEMI]" using ne ns by (simp add: ensureSemicolon_def)
  have "lastNonEmptyLine (s @ [SEMI]) = Some (last (split_nl s) @ [SEMI])"
    using SEMI_not_NL by (rule lastNonEmptyLine_snoc)
  moreover have "endsWithOne (last (split_nl s) @ [SEMI]) SEMI"
    using nl by (simp add: endsWithOne_def)
  ultimately show "\<exists>l'. lastNonEmptyLine (ensureSemicolon s) = Some l' \<and> endsWithOne l' SEMI"
    using r by simp
next
  assume "s = [] \<or> endsWith s SEMI"
  then show "ensureSemicolon s = s" by (auto simp: ensureSemicolon_def)
next
  show "ensureSemicolon (ensureSemicolon s) = ensureSemicolon s" by (rule ensureSemicolon_idem)
next
  show "ensureSemicolonLastLine s =
     (if trim s = [] \<or> endsWith (trim s) SEMI then trim s else trim s @ [SEMI])"
    by (rule ensureSemicolonLastLine_cases)
qed

theorem semicolon_repair_witness:
  "lastNonEmptyLine (str ''3 quartos;'' @ [NL] @ str ''2 vagas'') = Some (str ''2 vagas'') \<and>
   \<not> endsWith (str ''2 vagas'') SEMI \<and>
   ensureSemicolon (str ''3 quartos;'' @ [NL] @ str ''2 vagas'')
     = str ''3 quartos;'' @ [NL] @ str ''2 vagas;'' \<and>
   lastNonEmptyLine (str ''3 quartos;'' @ [NL] @ str ''2 vagas;'') = Some (str ''2 vagas;'') \<and>
   endsWith (str ''2 vagas;'') SEMI \<and>
   ensureSemicolon (str ''3 quartos;'' @ [NL] @ str ''2 vagas;'')
     = str ''3 quartos;'' @ [NL] @ str ''2 vagas;''"
  using semicolon_repair [of "str ''3 quartos;'' @ [NL] @ str ''2 vagas''" "str ''2 vagas''"]
    semicolon_repair [of "str ''3 quartos;'' @ [NL] @ str ''2 vagas;''" "[]"]
  by (simp add: string_consts string_ops flow_defs)

text \<open>
  Claim C3 as stated fails for a text whose last non-empty line ends with one semicolon
  and which ends with a line break: the repair appends a further semicolon after the
  line break. The line-wise revision of the flow changes this text too, by trimming it.
\<close>

theorem semicolon_repair_counterexample:
  "lastNonEmptyLine (str ''2 vagas;'' @ [NL]) = Some (str ''2 vagas;'') \<and>
   endsWithOne (str ''2 vagas;'') SEMI \<and>
   ensureSemicolon (str ''2 vagas;'' @ [NL]) = str ''2 vagas;'' @ [NL] @ str '';'' \<and>
   ensureSemicolon (str ''2 vagas;'' @ [NL]) \<noteq> str ''2 vagas;'' @ [NL] \<and>
   ensureSemicolonLastLine (str ''2 vagas;'' @ [NL]) = str ''2 vagas;'' \<and>
   ensureSemicolonLastLine (str ''2 vagas;'' @ [NL]) \<noteq> str ''2 vagas;'' @ [NL]"
  by (simp add: string_consts string_ops flow_defs)

section \<open>The normal form of a price\<close>

lemma marker_Cons:
  "prefix currencyMarker (a # b # rest) \<longleftrightarrow> a = 0x52 \<and> b = 0x24"
  by (simp add: currencyMarker_def)

lemma removeCurrencyMarker_none:
  "\<not> sublist currencyMarker s \<Longrightarrow> removeCurrencyMarker s = s"
proof (induction s rule: removeCurrencyMarker.induct)
  case (1 a b rest)
  have np: "\<not> prefix currencyMarker (a # b # rest)" and ns: "\<not> sublist currencyMarker (b # rest)"
    using "1.prems" by (simp_all add: sublist_Cons_right)
  then have n: "\<not> (a = 0x52 \<and> b = 0x24)" by (simp add: marker_Cons)
  then show ?case using "1.IH"(2) [OF n ns] by auto
qed simp_all

lemma R_not_space: "\<not> isWhiteSpace 0x52"
  by (simp add: isWhiteSpace_def)

lemma dollar_not_space: "\<not> isWhiteSpace 0x24"
  by (simp add: isWhiteSpace_def)

lemma removeCurrencyMarker_space:
  "\<forall>c \<in> set w. isWhiteSpace c \<Longrightarrow>
   removeCurrencyMarker (w @ s) = w @ removeCurrencyMarker s"
proof (induction w)
  case Nil
  show ?case by simp
next
  case (Cons a w)
  have a: "a \<noteq> 0x52" using Cons.prems R_not_space by auto
  show ?case
  proof (cases "w @ s")
    case Nil
    then show ?thesis by simp
  next
    case (Cons b rest)
    have "removeCurrencyMarker (a # b # rest) = a # removeCurrencyMarker (b # rest)"
      using a by simp
    then show ?thesis using Cons Cons.IH Cons.prems by simp
  qed
qed

lemma no_marker_space:
  "\<not> sublist currencyMarker t \<Longrightarrow> \<forall>c \<in> set w. isWhiteSpace c \<Longrightarrow>
   \<not> sublist currencyMarker (t @ w)"
proof (induction w rule: rev_induct)
  case Nil
  then show ?case by simp
next
  case (snoc c w)
  have c: "c \<noteq> 0x24" using snoc.prems(2) dollar_not_space by auto
  have "sublist currencyMarker ((t @ w) @ [c]) \<longleftrightarrow>
          suffix currencyMarker ((t @ w) @ [c]) \<or> sublist currencyMarker (t @ w)"
    by (rule sublist_snoc)
  moreover have "\<not> suffix ([0x52] @ [0x24]) ((t @ w) @ [c])"
    unfolding snoc_suffix_snoc using c by simp
  moreover have "\<not> sublist currencyMarker (t @ w)" using snoc by simp
  ultimately show ?case by (simp add: currencyMarker_def)
qed

lemma trim_pad:
  assumes "\<forall>c \<in> set w1. isWhiteSpace c" and "\<forall>c \<in> set w2. isWhiteSpace c"
    and "t = [] \<or> (\<not> isWhiteSpace (hd t) \<and> \<not> isWhiteSpace (last t))"
  shows "trim (w1 @ t @ w2) = t"
proof (cases "t = []")
  case True
  have "\<forall>c \<in> set (w1 @ w2). isWhiteSpace c" using assms(1,2) by auto
  then have d: "dropWhile isWhiteSpace (w1 @ w2) = []" by (simp only: dropWhile_eq_Nil_conv)
  have "trim (w1 @ w2) = []" unfolding trim_def trimStart_def trimEnd_def d by simp
  then show ?thesis using True by simp
next
  case False
  then obtain a t' where t: "t = a # t'" by (cases t) auto
  obtain t'' z where t2: "t = t'' @ [z]" using False by (cases t rule: rev_cases) auto
  have "hd t = a" using t by simp
  moreover have "last t = z" using t2 by simp
  ultimately have a: "\<not> isWhiteSpace a" and z: "\<not> isWhiteSpace z" using assms(3) False by simp_all
  have "dropWhile isWhiteSpace (w1 @ t @ w2) = t @ w2"
    using assms(1) a unfolding t by (simp add: dropWhile_append2)
  moreover have "dropWhile isWhiteSpace (rev (t @ w2)) = rev t"
  proof -
    have "dropWhile isWhiteSpace (rev w2 @ z # rev t'') = dropWhile isWhiteSpace (z # rev t'')"
      by (rule dropWhile_append2) (use assms(2) in simp)
    then show ?thesis using z unfolding t2 by simp
  qed
  ultimately show ?thesis by (simp add: trim_def trimStart_def trimEnd_def)
qed

lemma trim_decomp:
  "\<exists>w1 w2. s = w1 @ trim s @ w2 \<and> (\<forall>c \<in> set w1. isWhiteSpace c) \<and>
     (\<forall>c \<in> set w2. isWhiteSpace c)"
proof -
  let ?u = "dropWhile isWhiteSpace s"
  have a: "s = takeWhile isWhiteSpace s @ ?u" by simp
  have "rev ?u = takeWhile isWhiteSpace (rev ?u) @ dropWhile isWhiteSpace (rev ?u)" by simp
  then have "?u = rev (dropWhile isWhiteSpace (rev ?u)) @ rev (takeWhile isWhiteSpace (rev ?u))"
    by (metis rev_append rev_rev_ident)
  then have b: "?u = trim s @ rev (takeWhile isWhiteSpace (rev ?u))"
    by (simp add: trim_def trimStart_def trimEnd_def)
  have "s = takeWhile isWhiteSpace s @ trim s @ rev (takeWhile isWhiteSpace (rev ?u))"
    using a b by metis
  moreover have "\<forall>c \<in> set (takeWhile isWhiteSpace s). isWhiteSpace c"
    by (meson set_takeWhileD)
  moreover have "\<forall>c \<in> set (rev (takeWhile isWhiteSpace (rev ?u))). isWhiteSpace c"
    using set_takeWhileD by fastforce
  ultimately show ?thesis by blast
qed

lemma trim_ends_or_Nil:
  "trim s = [] \<or> (\<not> isWhiteSpace (hd (trim s)) \<and> \<not> isWhiteSpace (last (trim s)))"
  using trim_ends [of s] by blast

lemma marker_removed:
  assumes "\<not> sublist currencyMarker (stripLeadingMarker v)"
  shows "trim (removeCurrencyMarker v) = stripLeadingMarker v"
proof -
  obtain w1 w2 where v: "v = w1 @ trim v @ w2"
    and w1: "\<forall>c \<in> set w1. isWhiteSpace c" and w2: "\<forall>c \<in> set w2. isWhiteSpace c"
    using trim_decomp [of v] by blast
  show ?thesis
  proof (cases "prefix currencyMarker (trim v)")
    case False
    then have s: "stripLeadingMarker v = trim v" by (simp add: stripLeadingMarker_def)
    then have "\<not> sublist currencyMarker (trim v @ w2)"
      using assms w2 by (simp add: no_marker_space)
    then have "removeCurrencyMarker (trim v @ w2) = trim v @ w2"
      by (rule removeCurrencyMarker_none)
    then have "removeCurrencyMarker (w1 @ trim v @ w2) = w1 @ trim v @ w2"
      using w1 by (simp add: removeCurrencyMarker_space)
    then have "trim (removeCurrencyMarker v) = trim (w1 @ trim v @ w2)" using v by simp
    also have "\<dots> = trim v" using w1 w2 trim_ends_or_Nil by (rule trim_pad)
    finally show ?thesis using s by simp
  next
    case True
    then obtain t where t: "trim v = currencyMarker @ t" by (auto simp: prefix_def)
    then have s: "stripLeadingMarker v = trim t"
      using True by (simp add: stripLeadingMarker_def currencyMarker_def)
    obtain x1 x2 where x: "t @ w2 = x1 @ trim t @ x2"
      and x1: "\<forall>c \<in> set x1. isWhiteSpace c" and x2: "\<forall>c \<in> set x2. isWhiteSpace c"
    proof -
      obtain y1 y2 where y: "t = y1 @ trim t @ y2"
        and y1: "\<forall>c \<in> set y1. isWhiteSpace c" and y2: "\<forall>c \<in> set y2. isWhiteSpace c"
        using trim_decomp [of t] by blast
      have "t @ w2 = y1 @ trim t @ (y2 @ w2)" using y by (metis append_assoc)
      moreover have "\<forall>c \<in> set (y2 @ w2). isWhiteSpace c" using y2 w2 by auto
      ultimately show ?thesis using y1 that by blast
    qed
    have e: "trim t = [] \<or> (\<not> isWhiteSpace (hd (trim t)) \<and> \<not> isWhiteSpace (last (trim t)))"
      by (rule trim_ends_or_Nil)
    have d: "dropWhile isWhiteSpace (t @ w2) = trim t @ (if trim t = [] then [] else x2)"
    proof (cases "trim t = []")
      case True
      then show ?thesis using x x1 x2 by (simp add: dropWhile_eq_Nil_conv)
    next
      case False
      then obtain a r where ar: "trim t = a # r" by (cases "trim t") auto
      then have "\<not> isWhiteSpace a" using e by simp
      then show ?thesis using x x1 ar by (simp add: dropWhile_append2)
    qed
    have "removeCurrencyMarker (currencyMarker @ t @ w2) =
            removeCurrencyMarker (dropWhile isWhiteSpace (t @ w2))"
      by (simp add: currencyMarker_def)
    also have "\<dots> = removeCurrencyMarker (trim t @ (if trim t = [] then [] else x2))"
      using d by simp
    also have "\<dots> = trim t @ (if trim t = [] then [] else x2)"
    proof (rule removeCurrencyMarker_none)
      have "\<forall>c \<in> set (if trim t = [] then [] else x2). isWhiteSpace c" using x2 by simp
      then show "\<not> sublist currencyMarker (trim t @ (if trim t = [] then [] else x2))"
        using assms s by (simp add: no_marker_space)
    qed
    finally have "removeCurrencyMarker v = w1 @ trim t @ (if trim t = [] then [] else x2)"
      using v t w1 by (metis append_assoc removeCurrencyMarker_space)
    moreover have "trim (w1 @ trim t @ (if trim t = [] then [] else x2)) = trim t"
      using w1 _ e by (rule trim_pad) (use x2 in simp)
    ultimately show ?thesis using s by simp
  qed
qed

lemma normal_forms_agree:
  "\<not> sublist currencyMarker (stripLeadingMarker v) \<Longrightarrow> normalizePrice v = leadingMarkerForm v"
  by (simp add: normalizePrice_def leadingMarkerForm_def marker_removed Let_def)

text \<open>
  Claim C5, as the code has it. On every platform the price \<open>350.000,00\<close> is rendered as
  the platform's BRL rendering of the number 350000, and \<open>abc\<close> comes back unchanged. A
  price comes back unchanged whenever \<open>parseFloat\<close> does not read as a number the normal
  form that the code computes: every \<open>R$\<close> with the white space after it removed, the
  rest trimmed, all dots removed, the first comma turned into a dot. For a price with no
  \<open>R$\<close> but a leading one this is the normal form of the specification, so such a price
  comes back unchanged whenever that form does not read as a number.
\<close>

theorem currency_format_and_fallback:
  "formatCurrency P (str ''350.000,00'') = currencyFormat P (Finite 350000) \<and>
   formatCurrency P (str ''abc'') = str ''abc'' \<and>
   (parseFloat (normalizePrice valueStr) = NaN \<longrightarrow> formatCurrency P valueStr = valueStr) \<and>
   (\<not> sublist currencyMarker (stripLeadingMarker valueStr) \<longrightarrow>
      normalizePrice valueStr = leadingMarkerForm valueStr) \<and>
   (\<not> sublist currencyMarker (stripLeadingMarker valueStr) \<and>
    parseFloat (leadingMarkerForm valueStr) = NaN \<longrightarrow>
      formatCurrency P valueStr = valueStr)"
proof (intro conjI impI)
  show "formatCurrency P (str ''350.000,00'') = currencyFormat P (Finite 350000)"
    by (rule formatCurrency_example)
next
  show "formatCurrency P (str ''abc'') = str ''abc''"
    using parseFloat_abc by (simp add: formatCurrency_def)
next
  assume "parseFloat (normalizePrice valueStr) = NaN"
  then show "formatCurrency P valueStr = valueStr" by (simp add: formatCurrency_def)
next
  assume "\<not> sublist currencyMarker (stripLeadingMarker valueStr)"
  then show "normalizePrice valueStr = leadingMarkerForm valueStr"
    by (rule normal_forms_agree)
next
  assume h: "\<not> sublist currencyMarker (stripLeadingMarker valueStr) \<and>
    parseFloat (leadingMarkerForm valueStr) = NaN"
  then have "normalizePrice valueStr = leadingMarkerForm valueStr"
    by (simp add: normal_forms_agree)
  then show "formatCurrency P valueStr = valueStr" using h by (simp add: formatCurrency_def)
qed

lemmas marker_eval = currencyMarker_def stripLeadingMarker_def leadingMarkerForm_def
  sublist_Cons_right

theorem currency_format_and_fallback_witness:
  "parseFloat (normalizePrice (str ''R$ abc'')) = NaN \<and>
   \<not> sublist currencyMarker (stripLeadingMarker (str ''R$ abc'')) \<and>
   normalizePrice (str ''R$ abc'') = leadingMarkerForm (str ''R$ abc'') \<and>
   parseFloat (leadingMarkerForm (str ''R$ abc'')) = NaN \<and>
   formatCurrency samplePlatform (str ''R$ abc'') = str ''R$ abc'' \<and>
   formatCurrency samplePlatform (str ''350.000,00'') = str ''R$'' @ [0xA0] @ str ''350.000,00''"
  using currency_format_and_fallback [of samplePlatform "str ''R$ abc''"]
  by (simp add: string_consts string_ops currency_defs marker_eval samplePlatform_def Let_def)

text \<open>
  Claim C5 as stated fails for a price with a currency marker that is not leading. The
  normal form of the specification keeps the marker of \<open>-R$ 7\<close> and does not read as a
  number; the code removes the marker, reads -7 and returns the rendering of -7, not the
  input.
\<close>

theorem currency_marker_counterexample:
  "leadingMarkerForm (str ''-R$ 7'') = str ''-R$ 7'' \<and>
   parseFloat (leadingMarkerForm (str ''-R$ 7'')) = NaN \<and>
   normalizePrice (str ''-R$ 7'') = str ''-7'' \<and>
   parseFloat (normalizePrice (str ''-R$ 7'')) = Finite (- 7) \<and>
   formatCurrency samplePlatform (str ''-R$ 7'') = str ''-R$'' @ [0xA0] @ str ''7,00'' \<and>
   formatCurrency samplePlatform (str ''-R$ 7'') \<noteq> str ''-R$ 7''"
  by (simp add: string_consts string_ops currency_defs marker_eval samplePlatform_def Let_def)

end
